theory Spec2Isabelle
  imports Complex_Main
begin

section \<open>Exceptions\<close>

text \<open>
  The Python exceptions that the modelled snippets raise or let through. An operation that
  can raise returns a sum: \<open>Inl e\<close> is "raises \<open>e\<close>", \<open>Inr v\<close> is "returns \<open>v\<close>".
\<close>

datatype pyexc =
    ZeroDivisionError
  | OverflowError
  | ValueError
  | TypeError
  | KeyError
  | FileNotFoundError

section \<open>generatorInsteadOfList.py: index_words and index_words_iter\<close>

text \<open>
  A Python \<open>str\<close> is a sequence of code points; \<open>enumerate\<close> counts code points. The text is
  therefore a list of code points, and the blank is code point 32.
\<close>

type_synonym pystr = "nat list"

definition blank :: nat where
  "blank = 32"

text \<open>An ASCII literal as a Python string.\<close>

definition str :: "string \<Rightarrow> pystr" where
  "str cs = map of_char cs"

text \<open>
  \<^verbatim>\<open>
  def index_words(text):
      result = []
      if text:
          result.append(0)
      for index, letter in enumerate(text):
          if letter == ' ':
              result.append(index + 1)
      return result
  \<close>
  The \<open>for\<close> loop is \<open>index_words_loop\<close>: the index of the next letter, the letters not yet
  visited, and the list accumulated so far.
\<close>

fun index_words_loop :: "int \<Rightarrow> pystr \<Rightarrow> int list \<Rightarrow> int list" where
  "index_words_loop index [] result = result"
| "index_words_loop index (letter # rest) result =
     index_words_loop (index + 1) rest
       (if letter = blank then result @ [index + 1] else result)"

definition index_words :: "pystr \<Rightarrow> int list" where
  "index_words text = index_words_loop 0 text (if text \<noteq> [] then [0] else [])"

text \<open>
  \<^verbatim>\<open>
  def index_words_iter(text):
      if text:
          yield 0
      for index, letter in enumerate(text):
          if letter == ' ':
              yield index + 1
  \<close>
  The generator object is a state machine. \<open>IW_Start\<close> is the generator before its first
  \<open>next\<close>; \<open>IW_Loop index rest\<close> is the generator suspended at a \<open>yield\<close>, about to
  resume the loop at \<open>index\<close> over the letters \<open>rest\<close>; \<open>IW_Done\<close> is the generator after its
  body has returned. \<open>iw_next\<close> is the built-in \<open>next\<close>: \<open>Some v\<close> is the value yielded,
  \<open>None\<close> is StopIteration.
\<close>

datatype iw_gen = IW_Start pystr | IW_Loop int pystr | IW_Done

fun iw_resume :: "int \<Rightarrow> pystr \<Rightarrow> int option \<times> iw_gen" where
  "iw_resume index [] = (None, IW_Done)"
| "iw_resume index (letter # rest) =
     (if letter = blank then (Some (index + 1), IW_Loop (index + 1) rest)
      else iw_resume (index + 1) rest)"

fun iw_next :: "iw_gen \<Rightarrow> int option \<times> iw_gen" where
  "iw_next (IW_Start text) =
     (if text \<noteq> [] then (Some 0, IW_Loop 0 text) else iw_resume 0 text)"
| "iw_next (IW_Loop index rest) = iw_resume index rest"
| "iw_next IW_Done = (None, IW_Done)"

definition index_words_iter :: "pystr \<Rightarrow> iw_gen" where
  "index_words_iter text = IW_Start text"

text \<open>What is left for the generator to look at; it shrinks with every value yielded.\<close>

fun iw_left :: "iw_gen \<Rightarrow> nat" where
  "iw_left (IW_Start text) = Suc (Suc (length text))"
| "iw_left (IW_Loop index rest) = Suc (length rest)"
| "iw_left IW_Done = 0"

lemma iw_resume_left:
  "iw_resume index rest = (Some v, g) \<Longrightarrow> iw_left g \<le> length rest"
  by (induction index rest rule: iw_resume.induct) (auto split: if_splits)

lemma iw_next_left: "iw_next g = (Some v, g') \<Longrightarrow> iw_left g' < iw_left g"
  by (cases g) (auto split: if_splits dest: iw_resume_left)

text \<open>\<open>list(it)\<close>: call \<open>next\<close> until StopIteration and collect what was yielded.\<close>

function iw_list :: "iw_gen \<Rightarrow> int list" where
  "iw_list g = (case iw_next g of (Some v, g') \<Rightarrow> v # iw_list g' | (None, g') \<Rightarrow> [])"
  by pat_completeness auto
termination
  by (relation "measure iw_left") (auto dest: iw_next_left [OF sym])

declare iw_list.simps [simp del]

section \<open>returnNoneFunc.py: careful_divide\<close>

text \<open>
  The arguments are Python numbers: an \<open>int\<close> of any size, or a \<open>float\<close>. A float is an IEEE
  754 double: a finite one is represented by the real number it denotes (\<open>Fin\<close>, with
  \<open>Fin 0\<close> for \<open>0.0\<close>), and there are \<open>-0.0\<close>, \<open>inf\<close>, \<open>-inf\<close> and \<open>nan\<close>. An operation
  rounds its real result to the nearest double, ties to even.
\<close>

datatype pyfloat = Fin real | NegZero | PosInf | NegInf | NaN

datatype pynum = PyInt int | PyFloat pyfloat

datatype pyret = RetNone | RetFloat pyfloat

text \<open>
  A number is too large for a float when it rounds beyond the largest double,
  \<open>2 ^ 1024 - 2 ^ 971\<close>: from \<open>2 ^ 1024 - 2 ^ 970\<close> on.
\<close>

definition float_overflows :: "real \<Rightarrow> bool" where
  "float_overflows x \<longleftrightarrow> 2 ^ 1024 - 2 ^ 970 \<le> \<bar>x\<bar>"

text \<open>The nearest integer, the even one of the two when they are equally near.\<close>

definition round_even :: "real \<Rightarrow> int" where
  "round_even r =
     (if r - of_int \<lfloor>r\<rfloor> < 1 / 2 then \<lfloor>r\<rfloor>
      else if 1 / 2 < r - of_int \<lfloor>r\<rfloor> then \<lfloor>r\<rfloor> + 1
      else if even \<lfloor>r\<rfloor> then \<lfloor>r\<rfloor> else \<lfloor>r\<rfloor> + 1)"

text \<open>
  The binary exponent of a positive number, \<open>e\<close> with \<open>2 ^ e \<le> x < 2 ^ (e + 1)\<close>: the
  halvings that bring \<open>x \<ge> 1\<close> below 2, the doublings that bring \<open>x < 1\<close> to 1.
\<close>

function halvings :: "real \<Rightarrow> nat" where
  "halvings x = (if x < 2 then 0 else Suc (halvings (x / 2)))"
  by pat_completeness auto
termination
proof (relation "measure (\<lambda>x. nat \<lfloor>x\<rfloor>)", goal_cases)
  case 1
  show ?case by simp
next
  case (2 x)
  then have "x / 2 \<le> x - 1" by simp
  then have "\<lfloor>x / 2\<rfloor> \<le> \<lfloor>x - 1\<rfloor>" by (rule floor_mono)
  moreover have "1 \<le> \<lfloor>x\<rfloor>" using 2 by simp
  ultimately show ?case by simp
qed

function doublings :: "real \<Rightarrow> nat" where
  "doublings x = (if x \<le> 0 \<or> 1 \<le> x then 0 else Suc (doublings (2 * x)))"
  by pat_completeness auto
termination
proof (relation "measure (\<lambda>x. nat \<lceil>1 / x\<rceil>)", goal_cases)
  case 1
  show ?case by simp
next
  case (2 x)
  then have x: "0 < x" "x < 1" by simp_all
  then have "1 < 1 / x" by simp
  then have c: "2 \<le> \<lceil>1 / x\<rceil>" by linarith
  have "1 / (2 * x) = (1 / x) / 2" by simp
  also have "\<dots> \<le> of_int \<lceil>1 / x\<rceil> / 2" by (simp add: divide_right_mono)
  also have "\<dots> \<le> of_int (\<lceil>1 / x\<rceil> - 1)" using c by simp
  finally have "\<lceil>1 / (2 * x)\<rceil> \<le> \<lceil>1 / x\<rceil> - 1" by (rule ceiling_le)
  then show ?case using c x by simp
qed

declare halvings.simps [simp del] doublings.simps [simp del]

definition exponent :: "real \<Rightarrow> int" where
  "exponent x = (if 1 \<le> x then int (halvings x) else - int (doublings x))"

text \<open>
  A double has 53 significant bits, and no bit below \<open>2 ^ -1074\<close>: the doubles next to \<open>x\<close>
  are the multiples of \<open>2 ^ ulp_exponent x\<close>.
\<close>

definition ulp_exponent :: "real \<Rightarrow> int" where
  "ulp_exponent x = max (exponent \<bar>x\<bar> - 52) (- 1074)"

definition round_double :: "real \<Rightarrow> real" where
  "round_double x = of_int (round_even (x / 2 powi ulp_exponent x)) * 2 powi ulp_exponent x"

text \<open>
  The doubles among the reals: an integer of less than 53 bits times a power of two, from
  \<open>2 ^ -1074\<close> to \<open>2 ^ 971\<close>. \<open>r\<close> is a double nearest to \<open>q\<close> when no double is nearer. A
  float is a double, an infinity or \<open>nan\<close>.
\<close>

definition is_double :: "real \<Rightarrow> bool" where
  "is_double x \<longleftrightarrow>
     (\<exists>m e. x = of_int m * 2 powi e \<and> \<bar>m\<bar> < 2 ^ 53 \<and> - 1074 \<le> e \<and> e \<le> 971)"



fun is_neg :: "pyfloat \<Rightarrow> bool" where
  "is_neg (Fin x) = (x < 0)"
| "is_neg NegZero = True"
| "is_neg NegInf = True"
| "is_neg x = False"

fun is_inf :: "pyfloat \<Rightarrow> bool" where
  "is_inf PosInf = True"
| "is_inf NegInf = True"
| "is_inf x = False"

fun float_zero :: "pyfloat \<Rightarrow> bool" where
  "float_zero (Fin x) = (x = 0)"
| "float_zero NegZero = True"
| "float_zero x = False"

fun magnitude :: "pyfloat \<Rightarrow> real" where
  "magnitude (Fin x) = \<bar>x\<bar>"
| "magnitude x = 0"

definition signed_zero :: "bool \<Rightarrow> pyfloat" where
  "signed_zero neg = (if neg then NegZero else Fin 0)"

definition signed_inf :: "bool \<Rightarrow> pyfloat" where
  "signed_inf neg = (if neg then NegInf else PosInf)"

text \<open>
  The float for a real result of magnitude \<open>q\<close> and the given sign: infinite when \<open>q\<close> is too
  large, a zero of that sign when \<open>q\<close> rounds to zero.
\<close>

definition rounded :: "bool \<Rightarrow> real \<Rightarrow> pyfloat" where
  "rounded neg q =
     (if float_overflows q then signed_inf neg
      else if round_double q = 0 then signed_zero neg
      else Fin (if neg then - round_double q else round_double q))"

text \<open>The division of IEEE 754, which is C's \<open>x / y\<close> on doubles.\<close>

definition ieee_div :: "pyfloat \<Rightarrow> pyfloat \<Rightarrow> pyfloat" where
  "ieee_div x y =
     (if x = NaN \<or> y = NaN then NaN
      else if is_inf x then
        (if is_inf y then NaN else signed_inf (is_neg x \<noteq> is_neg y))
      else if is_inf y then signed_zero (is_neg x \<noteq> is_neg y)
      else if float_zero y then
        (if float_zero x then NaN else signed_inf (is_neg x \<noteq> is_neg y))
      else rounded (is_neg x \<noteq> is_neg y) (magnitude x / magnitude y))"

text \<open>
  Python's division of two floats: ZeroDivisionError when the divisor is \<open>0.0\<close> or \<open>-0.0\<close>,
  the IEEE quotient otherwise.
\<close>

definition float_div :: "pyfloat \<Rightarrow> pyfloat \<Rightarrow> pyexc + pyfloat" where
  "float_div x y = (if float_zero y then Inl ZeroDivisionError else Inr (ieee_div x y))"

text \<open>
  The operand of a float division as a double: an \<open>int\<close> is converted, and the conversion
  raises OverflowError ("int too large to convert to float") when it does not fit.
\<close>

fun as_double :: "pynum \<Rightarrow> pyexc + pyfloat" where
  "as_double (PyFloat x) = Inr x"
| "as_double (PyInt i) =
     (if float_overflows (of_int i) then Inl OverflowError
      else Inr (Fin (round_double (of_int i))))"

text \<open>
  The quotient of two ints is rounded once, from the exact quotient; a zero result is
  negative when exactly one of the two ints is.
\<close>

definition int_quotient :: "int \<Rightarrow> int \<Rightarrow> pyfloat" where
  "int_quotient a b = rounded ((a < 0) \<noteq> (b < 0)) (\<bar>of_int a\<bar> / \<bar>of_int b\<bar>)"

text \<open>
  Python's \<open>a / b\<close>. Two ints: ZeroDivisionError when \<open>b\<close> is zero, OverflowError ("integer
  division result too large for a float") when the quotient is too large. Otherwise a float
  division: both operands are converted, the left one first.
\<close>

fun truediv :: "pynum \<Rightarrow> pynum \<Rightarrow> pyexc + pyfloat" where
  "truediv (PyInt a) (PyInt b) =
     (if b = 0 then Inl ZeroDivisionError
      else if float_overflows (of_int a / of_int b) then Inl OverflowError
      else Inr (int_quotient a b))"
| "truediv a b =
     (case as_double a of
        Inl e \<Rightarrow> Inl e
      | Inr x \<Rightarrow>
          (case as_double b of
             Inl e \<Rightarrow> Inl e
           | Inr y \<Rightarrow> float_div x y))"

text \<open>
  The first version of the file (lines 7--11), which gives None a special meaning:
  \<^verbatim>\<open>
  def careful_divide(a, b):
      try:
          return a / b
      except ZeroDivisionError:
          return None
  \<close>
\<close>

definition careful_divide_none :: "pynum \<Rightarrow> pynum \<Rightarrow> pyexc + pyret" where
  "careful_divide_none a b =
     (case truediv a b of
        Inr q \<Rightarrow> Inr (RetFloat q)
      | Inl ZeroDivisionError \<Rightarrow> Inr RetNone
      | Inl e \<Rightarrow> Inl e)"

text \<open>
  The final version (lines 109--118):
  \<^verbatim>\<open>
  def careful_divide(a: float, b: float) -> float:
      try:
          return a / b
      except ZeroDivisionError as e:
          raise ValueError('Invalid inputs')
  \<close>
  Only ZeroDivisionError is caught; any other exception of the division passes through.
\<close>

definition careful_divide :: "pynum \<Rightarrow> pynum \<Rightarrow> pyexc + pyret" where
  "careful_divide a b =
     (case truediv a b of
        Inr q \<Rightarrow> Inr (RetFloat q)
      | Inl ZeroDivisionError \<Rightarrow> Inl ValueError
      | Inl e \<Rightarrow> Inl e)"


text \<open>
  The float that is the quotient of \<open>a\<close> by \<open>b\<close>: of two ints, the exact quotient rounded; of
  a float and a number, the IEEE quotient of the two as floats.
\<close>

fun to_float :: "pynum \<Rightarrow> pyfloat" where
  "to_float (PyInt i) = Fin (round_double (of_int i))"
| "to_float (PyFloat x) = x"

fun quotient :: "pynum \<Rightarrow> pynum \<Rightarrow> pyfloat" where
  "quotient (PyInt a) (PyInt b) = int_quotient a b"
| "quotient a b = ieee_div (to_float a) (to_float b)"




section \<open>Values and the store of dictionaries\<close>

text \<open>
  The values that the modelled calls pass around. A mutable container is not a value: it
  lives in the store, and the value is the reference to it (\<open>VRef\<close>, an address), as in
  Python, where \<open>foo is bar\<close> compares addresses.
\<close>

datatype pyval =
    VNone
  | VBool bool
  | VInt int
  | VFloat pyfloat
  | VStr pystr
  | VTuple "pyval list"
  | VRef nat

type_synonym pydict = "string \<rightharpoonup> pyval"

type_synonym heap = "pydict list"

text \<open>
  \<open>{}\<close> allocates a new empty dictionary; \<open>r[k] = v\<close> and \<open>r[k]\<close> write and read the
  dictionary that \<open>r\<close> refers to. A value that refers to no dictionary is not subscriptable
  (TypeError).
\<close>

definition new_dict :: "heap \<Rightarrow> pyval \<times> heap" where
  "new_dict h = (VRef (length h), h @ [Map.empty])"

fun setitem :: "heap \<Rightarrow> pyval \<Rightarrow> string \<Rightarrow> pyval \<Rightarrow> pyexc + heap" where
  "setitem h (VRef a) k v =
     (if a < length h then Inr (h[a := (h ! a)(k \<mapsto> v)]) else Inl TypeError)"
| "setitem h r k v = Inl TypeError"

fun getitem :: "heap \<Rightarrow> pyval \<Rightarrow> string \<Rightarrow> pyexc + pyval" where
  "getitem h (VRef a) k =
     (if a < length h then (case (h ! a) k of None \<Rightarrow> Inl KeyError | Some v \<Rightarrow> Inr v)
      else Inl TypeError)"
| "getitem h r k = Inl TypeError"

section \<open>CallBinder\<close>

text \<open>
  A parameter declaration: its name, its zone, and its default value (\<open>None\<close> marks a
  required parameter). The position of a parameter is its place in the parameter list.
  The default is a value computed once, when the parameter list is built; a default that
  is a container is a reference into the store.
\<close>

datatype zone = PositionalOnly | Flexible | KeywordOnly

record param_decl =
  pname :: string
  pzone :: zone
  pdefault :: "pyval option"

datatype bind_error =
    TooManyPositionalArgs
  | UnexpectedKeyword
  | UnknownParameter
  | MissingRequiredArgument

type_synonym binding = "(string \<times> pyval) list"

text \<open>
  Modelled from the spec: the repository has no \<open>bind\<close> function; its files only define
  Python functions with \<open>/\<close> and \<open>*\<close> in their parameter lists and call them. \<open>bind\<close>
  follows the four steps of section 4.2 of the specification, for parameter lists without
  a variadic catch-all (none of the repository's safe_divisor functions declares one).

  Step 1: the zones in declared order; the parameters that can take a positional argument
  are the positional-only ones, then the flexible ones.
\<close>

definition zone_params :: "zone \<Rightarrow> param_decl list \<Rightarrow> param_decl list" where
  "zone_params z paramSpec = filter (\<lambda>p. pzone p = z) paramSpec"

definition positional_capable :: "param_decl list \<Rightarrow> param_decl list" where
  "positional_capable paramSpec =
     zone_params PositionalOnly paramSpec @ zone_params Flexible paramSpec"

text \<open>
  Step 2: positional arguments, left to right, to the positional-capable parameters in
  order; TooManyPositionalArgs if there are more arguments than such parameters.
\<close>

definition bind_positional :: "param_decl list \<Rightarrow> pyval list \<Rightarrow> bind_error + binding" where
  "bind_positional paramSpec positionalArgs =
     (if length (positional_capable paramSpec) < length positionalArgs
      then Inl TooManyPositionalArgs
      else Inr (zip (map pname (positional_capable paramSpec)) positionalArgs))"

text \<open>
  Step 3: named arguments, in the order of the call. UnknownParameter if no parameter has
  the name; UnexpectedKeyword if the parameter is positional-only or already bound.
\<close>

fun bind_named :: "param_decl list \<Rightarrow> binding \<Rightarrow> (string \<times> pyval) list \<Rightarrow> bind_error + binding" where
  "bind_named paramSpec bound [] = Inr bound"
| "bind_named paramSpec bound ((name, v) # namedArgs) =
     (case find (\<lambda>p. pname p = name) paramSpec of
        None \<Rightarrow> Inl UnknownParameter
      | Some p \<Rightarrow>
          if pzone p = PositionalOnly \<or> map_of bound name \<noteq> None
          then Inl UnexpectedKeyword
          else bind_named paramSpec (bound @ [(name, v)]) namedArgs)"

text \<open>
  Step 4: every parameter still unbound takes its declared default;
  MissingRequiredArgument if it has none. The result lists the parameters in declared
  order.
\<close>

fun fill_defaults :: "param_decl list \<Rightarrow> binding \<Rightarrow> bind_error + binding" where
  "fill_defaults [] bound = Inr []"
| "fill_defaults (p # ps) bound =
     (case (case map_of bound (pname p) of Some v \<Rightarrow> Some v | None \<Rightarrow> pdefault p) of
        None \<Rightarrow> Inl MissingRequiredArgument
      | Some v \<Rightarrow>
          (case fill_defaults ps bound of
             Inl e \<Rightarrow> Inl e
           | Inr rest \<Rightarrow> Inr ((pname p, v) # rest)))"

definition bind :: "param_decl list \<Rightarrow> pyval list \<Rightarrow> (string \<times> pyval) list \<Rightarrow> bind_error + binding" where
  "bind paramSpec positionalArgs namedArgs =
     (case bind_positional paramSpec positionalArgs of
        Inl e \<Rightarrow> Inl e
      | Inr bound \<Rightarrow>
          (case bind_named paramSpec bound namedArgs of
             Inl e \<Rightarrow> Inl e
           | Inr bound' \<Rightarrow> fill_defaults paramSpec bound'))"

text \<open>
  A call falls back to the default of a parameter when it supplies the parameter neither
  by position nor by name.
\<close>

definition falls_back :: "param_decl list \<Rightarrow> pyval list \<Rightarrow> (string \<times> pyval) list \<Rightarrow> string \<Rightarrow> bool" where
  "falls_back paramSpec positionalArgs namedArgs name \<longleftrightarrow>
     map_of (zip (map pname (positional_capable paramSpec)) positionalArgs) name = None \<and>
     map_of namedArgs name = None"

subsection \<open>The parameter lists of onlyPositionalOrOnlyKeywordArgumentFunc.py\<close>

text \<open>
  \<^verbatim>\<open>
  def safe_divisor_c(numbers, divisor, *,
                     ignore_overflow=False, ignore_zero_divisor=False):
  def safe_divisor_d(numerator, denominator, *,
                     ignore_overflow=False, ignore_zero_divisor=False):
  def safe_divisor_e(numerator, denominator, /, *,
                     ignore_overflow=False, ignore_zero_divisor=False):
  def safe_divisor_f(numerator, denominator, /, ndigits=10, *,
                     ignore_overflow=False, ignore_zero_divisor=False):
  \<close>
\<close>

definition ignore_flags :: "param_decl list" where
  "ignore_flags =
     [\<lparr>pname = ''ignore_overflow'', pzone = KeywordOnly, pdefault = Some (VBool False)\<rparr>,
      \<lparr>pname = ''ignore_zero_divisor'', pzone = KeywordOnly, pdefault = Some (VBool False)\<rparr>]"

definition safe_divisor_c_params :: "param_decl list" where
  "safe_divisor_c_params =
     [\<lparr>pname = ''numbers'', pzone = Flexible, pdefault = None\<rparr>,
      \<lparr>pname = ''divisor'', pzone = Flexible, pdefault = None\<rparr>] @ ignore_flags"

definition safe_divisor_d_params :: "param_decl list" where
  "safe_divisor_d_params =
     [\<lparr>pname = ''numerator'', pzone = Flexible, pdefault = None\<rparr>,
      \<lparr>pname = ''denominator'', pzone = Flexible, pdefault = None\<rparr>] @ ignore_flags"

definition safe_divisor_e_params :: "param_decl list" where
  "safe_divisor_e_params =
     [\<lparr>pname = ''numerator'', pzone = PositionalOnly, pdefault = None\<rparr>,
      \<lparr>pname = ''denominator'', pzone = PositionalOnly, pdefault = None\<rparr>] @ ignore_flags"

definition safe_divisor_f_params :: "param_decl list" where
  "safe_divisor_f_params =
     [\<lparr>pname = ''numerator'', pzone = PositionalOnly, pdefault = None\<rparr>,
      \<lparr>pname = ''denominator'', pzone = PositionalOnly, pdefault = None\<rparr>,
      \<lparr>pname = ''ndigits'', pzone = Flexible, pdefault = Some (VInt 10)\<rparr>] @ ignore_flags"

text \<open>
  The parameter list of the specification's examples: positional-only \<open>(a, b)\<close>, flexible
  \<open>(c=10)\<close>, keyword-only \<open>(d)\<close>, that is \<open>def f(a, b, /, c=10, *, d)\<close>.
\<close>

definition abcd_params :: "param_decl list" where
  "abcd_params =
     [\<lparr>pname = ''a'', pzone = PositionalOnly, pdefault = None\<rparr>,
      \<lparr>pname = ''b'', pzone = PositionalOnly, pdefault = None\<rparr>,
      \<lparr>pname = ''c'', pzone = Flexible, pdefault = Some (VInt 10)\<rparr>,
      \<lparr>pname = ''d'', pzone = KeywordOnly, pdefault = None\<rparr>]"

subsection \<open>noneAndDocstringFunc.py: decode with a dictionary as default\<close>

text \<open>
  \<^verbatim>\<open>
  def decode(data, default={}):
      try:
          return json.loads(data)
      except ValueError:
          return default
  \<close>
  Executing the \<open>def\<close> statement evaluates the default expression \<open>{}\<close> once: it
  allocates one dictionary and stores the reference in the parameter list.
\<close>

definition decode_params :: "pyval \<Rightarrow> param_decl list" where
  "decode_params dflt =
     [\<lparr>pname = ''data'', pzone = Flexible, pdefault = None\<rparr>,
      \<lparr>pname = ''default'', pzone = Flexible, pdefault = Some dflt\<rparr>]"

definition def_decode :: "heap \<Rightarrow> param_decl list \<times> heap" where
  "def_decode h = (case new_dict h of (dflt, h') \<Rightarrow> (decode_params dflt, h'))"

text \<open>
  A call of \<open>decode\<close>: the arguments are bound, then the body runs. \<open>json.loads\<close> is a
  parameter \<open>loads\<close>: on a value and a store it raises, or returns a value and the store
  with whatever it allocated. A call that cannot be bound raises TypeError.
\<close>

definition local_var :: "binding \<Rightarrow> string \<Rightarrow> pyval" where
  "local_var b name = (case map_of b name of Some v \<Rightarrow> v | None \<Rightarrow> VNone)"

definition decode :: "(pyval \<Rightarrow> heap \<Rightarrow> pyexc + pyval \<times> heap) \<Rightarrow> param_decl list \<Rightarrow>
    pyval list \<Rightarrow> (string \<times> pyval) list \<Rightarrow> heap \<Rightarrow> pyexc + pyval \<times> heap" where
  "decode loads params positionalArgs namedArgs h =
     (case bind params positionalArgs namedArgs of
        Inl e \<Rightarrow> Inl TypeError
      | Inr b \<Rightarrow>
          (case loads (local_var b ''data'') h of
             Inr r \<Rightarrow> Inr r
           | Inl ValueError \<Rightarrow> Inr (local_var b ''default'', h)
           | Inl e \<Rightarrow> Inl e))"

section \<open>Iterators and generators\<close>

text \<open>
  The built-in \<open>next\<close> either returns a value, raises StopIteration (the sequence is
  exhausted), or lets another exception through.
\<close>

datatype 'a outcome = Yield 'a | StopIteration | Raise pyexc

text \<open>
  Iterators are objects: a generator expression holds a reference to the iterator it loops
  over, and advancing the one advances the other. The objects therefore live in a store,
  a list indexed by address, and a wrapper names its upstream by address.
  \<^item> \<open>ListIter xs i\<close>: the iterator of a list or a range, with the sequence and its cursor.
  \<^item> \<open>FileIter content i\<close>: the lines of a file opened for reading, with the cursor;
    \<open>content\<close> is \<open>None\<close> when the file cannot be opened.
  \<^item> \<open>Pipe k finished f p u\<close>: the loop \<open>for x in u: if p(x): yield f(x)\<close> over the
    iterator at address \<open>u\<close>. A \<open>Generator\<close> (a generator function or a generator
    expression) is finished for good once its body has returned or raised; a \<open>Builtin\<close>
    (\<open>map\<close>, \<open>filter\<close>) keeps no such flag and asks its upstream again.
\<close>

datatype kind = Builtin | Generator

datatype iter_obj =
    ListIter "pyval list" nat
  | FileIter "pystr list option" nat
  | Pipe kind bool "pyval \<Rightarrow> pyexc + pyval" "pyval \<Rightarrow> pyexc + bool" nat

type_synonym store = "iter_obj list"

text \<open>The items a source has not handed out yet, and their number over the whole store.\<close>

fun remaining :: "iter_obj \<Rightarrow> nat" where
  "remaining (ListIter xs i) = length xs - i"
| "remaining (FileIter (Some ls) i) = length ls - i"
| "remaining obj = 0"

definition weight :: "store \<Rightarrow> nat" where
  "weight s = sum_list (map remaining s)"

text \<open>A generator whose body has returned or raised is marked finished.\<close>

fun finish :: "iter_obj \<Rightarrow> nat \<Rightarrow> store \<Rightarrow> store" where
  "finish (Pipe Generator finished f p u) a s = s[a := Pipe Generator True f p u]"
| "finish obj a s = s"

text \<open>Every item that is yielded was taken from a source, so the store gets lighter.\<close>

lemma weight_update:
  "a < length s \<Longrightarrow> weight (s[a := obj]) + remaining (s ! a) = weight s + remaining obj"
  unfolding weight_def
  by (induction s arbitrary: a) (auto simp: nth_Cons' split: nat.splits)

lemma weight_step:
  "a < length s \<Longrightarrow> remaining obj < remaining (s ! a) \<Longrightarrow> weight (s[a := obj]) < weight s"
  using weight_update [of a s obj] by linarith

text \<open>
  \<open>nxt s a\<close> is \<open>next\<close> on the object at address \<open>a\<close>: the outcome and the store afterwards.
  A wrapper pulls from its upstream until an item passes the predicate. An address that
  holds no object, and a wrapper whose upstream is not an older object, cannot come out of
  the constructors below; \<open>next\<close> on them is a TypeError.
\<close>

function nxt :: "store \<Rightarrow> nat \<Rightarrow> pyval outcome \<times> store" where
  "nxt s a =
     (if length s \<le> a then (Raise TypeError, s)
      else case s ! a of
        ListIter xs i \<Rightarrow>
          if i < length xs then (Yield (xs ! i), s[a := ListIter xs (Suc i)])
          else (StopIteration, s)
      | FileIter content i \<Rightarrow>
          (case content of
             None \<Rightarrow> (Raise FileNotFoundError, s)
           | Some ls \<Rightarrow>
               if i < length ls then (Yield (VStr (ls ! i)), s[a := FileIter content (Suc i)])
               else (StopIteration, s))
      | Pipe k finished f p u \<Rightarrow>
          if finished then (StopIteration, s)
          else if a \<le> u then (Raise TypeError, s)
          else (case nxt s u of
                  (Yield x, s') \<Rightarrow>
                    (case p x of
                       Inl e \<Rightarrow> (Raise e, finish (s ! a) a s')
                     | Inr keep \<Rightarrow>
                         if keep then
                           (case f x of
                              Inl e \<Rightarrow> (Raise e, finish (s ! a) a s')
                            | Inr y \<Rightarrow> (Yield y, s'))
                         else nxt s' a)
                | (StopIteration, s') \<Rightarrow> (StopIteration, finish (s ! a) a s')
                | (Raise e, s') \<Rightarrow> (Raise e, finish (s ! a) a s')))"
  by pat_completeness auto
termination
proof -
  have shrink: "nxt_dom (s, a) \<Longrightarrow> nxt s a = (Yield x, s') \<Longrightarrow> weight s' < weight s"
    for s a x s'
  proof (induction s a arbitrary: x s' rule: nxt.pinduct)
    case (1 s a)
    show ?case
      using "1.prems" "1.IH" "1.hyps"
      apply (subst (asm) nxt.psimps)
       apply assumption
      apply (auto split: if_splits iter_obj.splits option.splits outcome.splits sum.splits
          prod.splits intro!: weight_step)
       apply (metis less_trans)+
      done
  qed
  show ?thesis
  proof (relation "measures [\<lambda>(s, a). weight s, \<lambda>(s, a). a]", goal_cases)
    case 1
    then show ?case by simp
  next
    case (2 s a)
    then show ?case by simp
  next
    case 3
    then show ?case by (auto dest: shrink [OF _ sym])
  qed
qed

declare nxt.simps [simp del]

text \<open>
  The induction rule of \<open>nxt\<close> with one case for each way a call can end: the hypotheses
  speak about the calls on the upstream and, after a rejected item, about the repeated call.
\<close>

lemma nxt_induct [consumes 1, case_names dangling list_yield list_stop file_missing file_yield
    file_stop finished bad_upstream up_stop up_raise pred_raise fn_raise yield skip]:
  assumes "nxt s a = (r, s')"
    and dangling: "\<And>s a. length s \<le> a \<Longrightarrow> P s a (Raise TypeError) s"
    and list_yield: "\<And>s a xs i. a < length s \<Longrightarrow> s ! a = ListIter xs i \<Longrightarrow> i < length xs \<Longrightarrow>
        P s a (Yield (xs ! i)) (s[a := ListIter xs (Suc i)])"
    and list_stop: "\<And>s a xs i. a < length s \<Longrightarrow> s ! a = ListIter xs i \<Longrightarrow> length xs \<le> i \<Longrightarrow>
        P s a StopIteration s"
    and file_missing: "\<And>s a i. a < length s \<Longrightarrow> s ! a = FileIter None i \<Longrightarrow>
        P s a (Raise FileNotFoundError) s"
    and file_yield: "\<And>s a ls i. a < length s \<Longrightarrow> s ! a = FileIter (Some ls) i \<Longrightarrow> i < length ls \<Longrightarrow>
        P s a (Yield (VStr (ls ! i))) (s[a := FileIter (Some ls) (Suc i)])"
    and file_stop: "\<And>s a ls i. a < length s \<Longrightarrow> s ! a = FileIter (Some ls) i \<Longrightarrow> length ls \<le> i \<Longrightarrow>
        P s a StopIteration s"
    and finished: "\<And>s a k f p u. a < length s \<Longrightarrow> s ! a = Pipe k True f p u \<Longrightarrow>
        P s a StopIteration s"
    and bad_upstream: "\<And>s a k f p u. a < length s \<Longrightarrow> s ! a = Pipe k False f p u \<Longrightarrow> a \<le> u \<Longrightarrow>
        P s a (Raise TypeError) s"
    and up_stop: "\<And>s a k f p u s1. a < length s \<Longrightarrow> s ! a = Pipe k False f p u \<Longrightarrow> u < a \<Longrightarrow>
        nxt s u = (StopIteration, s1) \<Longrightarrow> P s u StopIteration s1 \<Longrightarrow>
        P s a StopIteration (finish (s ! a) a s1)"
    and up_raise: "\<And>s a k f p u s1 e. a < length s \<Longrightarrow> s ! a = Pipe k False f p u \<Longrightarrow> u < a \<Longrightarrow>
        nxt s u = (Raise e, s1) \<Longrightarrow> P s u (Raise e) s1 \<Longrightarrow>
        P s a (Raise e) (finish (s ! a) a s1)"
    and pred_raise: "\<And>s a k f p u s1 x e. a < length s \<Longrightarrow> s ! a = Pipe k False f p u \<Longrightarrow> u < a \<Longrightarrow>
        nxt s u = (Yield x, s1) \<Longrightarrow> P s u (Yield x) s1 \<Longrightarrow> p x = Inl e \<Longrightarrow>
        P s a (Raise e) (finish (s ! a) a s1)"
    and fn_raise: "\<And>s a k f p u s1 x e. a < length s \<Longrightarrow> s ! a = Pipe k False f p u \<Longrightarrow> u < a \<Longrightarrow>
        nxt s u = (Yield x, s1) \<Longrightarrow> P s u (Yield x) s1 \<Longrightarrow> p x = Inr True \<Longrightarrow> f x = Inl e \<Longrightarrow>
        P s a (Raise e) (finish (s ! a) a s1)"
    and yield: "\<And>s a k f p u s1 x y. a < length s \<Longrightarrow> s ! a = Pipe k False f p u \<Longrightarrow> u < a \<Longrightarrow>
        nxt s u = (Yield x, s1) \<Longrightarrow> P s u (Yield x) s1 \<Longrightarrow> p x = Inr True \<Longrightarrow> f x = Inr y \<Longrightarrow>
        P s a (Yield y) s1"
    and skip: "\<And>s a k f p u s1 x r s'. a < length s \<Longrightarrow> s ! a = Pipe k False f p u \<Longrightarrow> u < a \<Longrightarrow>
        nxt s u = (Yield x, s1) \<Longrightarrow> P s u (Yield x) s1 \<Longrightarrow> p x = Inr False \<Longrightarrow>
        nxt s1 a = (r, s') \<Longrightarrow> P s1 a r s' \<Longrightarrow> P s a r s'"
  shows "P s a r s'"
  using assms(1)
proof (induction s a arbitrary: r s' rule: nxt.induct)
  case (1 s a)
  note eq = \<open>nxt s a = (r, s')\<close>
  show ?case
  proof (cases "length s \<le> a")
    case True
    then show ?thesis
      using eq dangling by (simp add: nxt.simps)
  next
    case False
    then have inb: "a < length s" by simp
    show ?thesis
    proof (cases "s ! a")
      case (ListIter xs i)
      then show ?thesis
        using eq inb list_yield [OF inb ListIter] list_stop [OF inb ListIter]
        by (simp add: nxt.simps [of s a] split: if_splits)
    next
      case (FileIter content i)
      then show ?thesis
        using eq inb file_missing [OF inb, of i] file_yield [OF inb, of _ i] file_stop [OF inb, of _ i]
        by (cases content) (simp_all add: nxt.simps [of s a] split: if_splits)
    next
      case (Pipe k fin f p u)
      show ?thesis
      proof (cases "fin \<or> a \<le> u")
        case True
        then show ?thesis
          using eq inb Pipe finished [OF inb, of k f p u] bad_upstream [OF inb, of k f p u]
          by (auto simp add: nxt.simps [of s a] split: if_splits)
      next
        case active: False
        then have obj: "s ! a = Pipe k False f p u" and ua: "u < a"
          using Pipe by auto
        obtain r1 s1 where up: "nxt s u = (r1, s1)"
          by (cases "nxt s u") auto
        have P1: "P s u r1 s1"
          using "1.IH"(1) [OF False Pipe _ _ up] active by auto
        show ?thesis
        proof (cases r1)
          case StopIteration
          then show ?thesis
            using eq inb obj ua up up_stop [OF inb obj ua up [unfolded StopIteration] P1 [unfolded StopIteration]]
            by (simp add: nxt.simps [of s a])
        next
          case (Raise e)
          then show ?thesis
            using eq inb obj ua up up_raise [OF inb obj ua up [unfolded Raise] P1 [unfolded Raise]]
            by (simp add: nxt.simps [of s a])
        next
          case (Yield x)
          note upY = up [unfolded Yield] and P1Y = P1 [unfolded Yield]
          show ?thesis
          proof (cases "p x")
            case (Inl e)
            then show ?thesis
              using eq inb obj ua upY pred_raise [OF inb obj ua upY P1Y Inl]
              by (simp add: nxt.simps [of s a])
          next
            case (Inr keep)
            show ?thesis
            proof (cases keep)
              case True
              then have px: "p x = Inr True" using Inr by simp
              show ?thesis
              proof (cases "f x")
                case (Inl e)
                then show ?thesis
                  using eq inb obj ua upY px fn_raise [OF inb obj ua upY P1Y px Inl]
                  by (simp add: nxt.simps [of s a])
              next
                case fx: (Inr y)
                then show ?thesis
                  using eq inb obj ua upY px yield [OF inb obj ua upY P1Y px fx]
                  by (simp add: nxt.simps [of s a])
              qed
            next
              case False
              then have px: "p x = Inr False" using Inr by simp
              have rec: "nxt s1 a = (r, s')"
                using eq inb obj ua upY px by (simp add: nxt.simps [of s a])
              have "P s1 a r s'"
                using "1.IH"(2) [OF \<open>\<not> length s \<le> a\<close> Pipe _ _ upY [symmetric] _ px _ rec] active
                by auto
              then show ?thesis
                using skip [OF inb obj ua upY P1Y px rec] by simp
            qed
          qed
        qed
      qed
    qed
  qed
qed

lemma length_finish [simp]: "length (finish obj a s) = length s"
  by (cases "(obj, a, s)" rule: finish.cases) auto

lemma nxt_length: "nxt s a = (r, s') \<Longrightarrow> length s' = length s"
  by (induction rule: nxt_induct) auto

lemma finish_other: "b \<noteq> a \<Longrightarrow> finish obj a s ! b = s ! b"
  by (cases "(obj, a, s)" rule: finish.cases) auto

lemma nxt_above: "nxt s a = (r, s') \<Longrightarrow> a < b \<Longrightarrow> s' ! b = s ! b"
  by (induction rule: nxt_induct) (auto simp: finish_other)

lemma nxt_yield_weight: "nxt s a = (Yield x, s') \<Longrightarrow> weight s' < weight s"
proof (induction s a "Yield x :: pyval outcome" s' arbitrary: x rule: nxt_induct)
  case (skip s a k f p u s1 x' s')
  then show ?case by (meson less_trans)
qed (auto intro!: weight_step)

text \<open>
  \<open>list(it)\<close>, and a \<open>for\<close> loop to its end: call \<open>next\<close> until StopIteration, collecting the
  values; any other exception ends the loop and reaches the caller.
\<close>

function collect :: "store \<Rightarrow> nat \<Rightarrow> (pyexc + pyval list) \<times> store" where
  "collect s a =
     (case nxt s a of
        (Yield x, s') \<Rightarrow>
          (case collect s' a of
             (Inl e, s'') \<Rightarrow> (Inl e, s'')
           | (Inr xs, s'') \<Rightarrow> (Inr (x # xs), s''))
      | (StopIteration, s') \<Rightarrow> (Inr [], s')
      | (Raise e, s') \<Rightarrow> (Inl e, s'))"
  by pat_completeness auto
termination
  by (relation "measure (\<lambda>(s, a). weight s)") (auto dest: nxt_yield_weight [OF sym])

declare collect.simps [simp del]

text \<open>\<open>n\<close> calls of \<open>next\<close> in a row, with all their outcomes.\<close>

fun nexts :: "nat \<Rightarrow> store \<Rightarrow> nat \<Rightarrow> pyval outcome list \<times> store" where
  "nexts 0 s a = ([], s)"
| "nexts (Suc n) s a =
     (case nxt s a of (r, s') \<Rightarrow> (case nexts n s' a of (rs, s'') \<Rightarrow> (r # rs, s'')))"

text \<open>
  Creating an object appends it to the store; its address is the old length. The
  constructors: \<open>iter(xs)\<close>, \<open>range(n)\<close>, \<open>open(path)\<close> on a file system \<open>fs\<close>,
  \<open>map(f, u)\<close>, \<open>filter(p, u)\<close>, and a generator \<open>(f(x) for x in u if p(x))\<close>.
\<close>

definition alloc :: "iter_obj \<Rightarrow> store \<Rightarrow> nat \<times> store" where
  "alloc obj s = (length s, s @ [obj])"

definition always :: "pyval \<Rightarrow> pyexc + bool" where
  "always x = Inr True"

definition py_iter :: "pyval list \<Rightarrow> store \<Rightarrow> nat \<times> store" where
  "py_iter xs s = alloc (ListIter xs 0) s"

definition py_range :: "nat \<Rightarrow> store \<Rightarrow> nat \<times> store" where
  "py_range n s = alloc (ListIter (map (\<lambda>i. VInt (int i)) [0..<n]) 0) s"

definition py_open :: "(string \<rightharpoonup> pystr list) \<Rightarrow> string \<Rightarrow> store \<Rightarrow> nat \<times> store" where
  "py_open fs path s = alloc (FileIter (fs path) 0) s"

definition py_map :: "(pyval \<Rightarrow> pyexc + pyval) \<Rightarrow> nat \<Rightarrow> store \<Rightarrow> nat \<times> store" where
  "py_map f u s = alloc (Pipe Builtin False f always u) s"

definition py_filter :: "(pyval \<Rightarrow> pyexc + bool) \<Rightarrow> nat \<Rightarrow> store \<Rightarrow> nat \<times> store" where
  "py_filter p u s = alloc (Pipe Builtin False Inr p u) s"

definition generator :: "(pyval \<Rightarrow> pyexc + pyval) \<Rightarrow> (pyval \<Rightarrow> pyexc + bool) \<Rightarrow> nat \<Rightarrow> store \<Rightarrow> nat \<times> store" where
  "generator f p u s = alloc (Pipe Generator False f p u) s"

text \<open>
  What a call of \<open>next\<close> may change in an object: the cursor of a source moves forward, a
  generator becomes finished. The sequence, the functions and the upstream stay.
\<close>

fun same_kind :: "iter_obj \<Rightarrow> iter_obj \<Rightarrow> bool" where
  "same_kind (ListIter xs i) (ListIter ys j) = (xs = ys \<and> i \<le> j)"
| "same_kind (FileIter c i) (FileIter d j) = (c = d \<and> i \<le> j)"
| "same_kind (Pipe k fin f p u) (Pipe k' fin' f' p' u') =
     (k = k' \<and> f = f' \<and> p = p' \<and> u = u' \<and> (fin \<longrightarrow> fin'))"
| "same_kind obj obj' = False"

text \<open>The addresses that a call of \<open>next\<close> on \<open>a\<close> can reach: \<open>a\<close> and its upstreams.\<close>

fun upstream :: "iter_obj \<Rightarrow> nat option" where
  "upstream (Pipe k finished f p u) = Some u"
| "upstream obj = None"

function chain :: "store \<Rightarrow> nat \<Rightarrow> nat list" where
  "chain s a =
     (if length s \<le> a then []
      else a # (case upstream (s ! a) of
                  Some u \<Rightarrow> if u < a then chain s u else []
                | None \<Rightarrow> []))"
  by pat_completeness auto
termination
  by (relation "measure snd") auto

declare chain.simps [simp del]

text \<open>How many items a source has handed out.\<close>

fun cursor :: "iter_obj \<Rightarrow> nat" where
  "cursor (ListIter xs i) = i"
| "cursor (FileIter content i) = i"
| "cursor obj = 0"

subsection \<open>iteratingOverArg.py: read_visits\<close>

text \<open>
  \<^verbatim>\<open>
  def read_visits(data_path):
      with open(data_path, 'r') as f:
          for line in f:
              yield int(line)
  \<close>
  The file belongs to the generator alone. \<open>int\<close> on a str is a parameter \<open>py_int\<close>,
  \<open>None\<close> where \<open>int\<close> raises ValueError; on a number it is the integer part.
\<close>

definition int_of_line :: "(pystr \<Rightarrow> int option) \<Rightarrow> pyval \<Rightarrow> pyexc + pyval" where
  "int_of_line py_int v =
     (case v of
        VStr line \<Rightarrow> (case py_int line of None \<Rightarrow> Inl ValueError | Some n \<Rightarrow> Inr (VInt n))
      | VInt n \<Rightarrow> Inr (VInt n)
      | VBool b \<Rightarrow> Inr (VInt (if b then 1 else 0))
      | VFloat (Fin x) \<Rightarrow> Inr (VInt (if 0 \<le> x then \<lfloor>x\<rfloor> else \<lceil>x\<rceil>))
      | VFloat NegZero \<Rightarrow> Inr (VInt 0)
      | VFloat NaN \<Rightarrow> Inl ValueError
      | VFloat x \<Rightarrow> Inl OverflowError
      | _ \<Rightarrow> Inl TypeError)"

definition read_visits ::
    "(pystr \<Rightarrow> int option) \<Rightarrow> (string \<rightharpoonup> pystr list) \<Rightarrow> string \<Rightarrow> store \<Rightarrow> nat \<times> store" where
  "read_visits py_int fs data_path s =
     (case py_open fs data_path s of (f, s1) \<Rightarrow> generator (int_of_line py_int) always f s1)"

text \<open>
  The file of the example, with the visits of line 21 (\<open>visits = [15, 35, 80]\<close>) one per
  line, and \<open>int\<close> on these lines.
\<close>

definition visits_file :: "pystr list" where
  "visits_file = [str ''15'' @ [10], str ''35'' @ [10], str ''80'' @ [10]]"

definition int_of_visit :: "pystr \<Rightarrow> int option" where
  "int_of_visit = map_of [(str ''15'' @ [10], 15), (str ''35'' @ [10], 35), (str ''80'' @ [10], 80)]"

subsection \<open>multipleGeneratorWithYield.py: child, slow and fast\<close>

text \<open>
  \<^verbatim>\<open>
  def child():
      for i in range(1_000_000):
          yield i

  def slow():
      for i in child():
          yield i

  def fast():
      yield from child()
  \<close>
  Each passes on every item of its upstream unchanged; to a caller of \<open>next\<close>, delegating
  with \<open>yield from\<close> is the loop of \<open>slow\<close>.
\<close>

definition child :: "store \<Rightarrow> nat \<times> store" where
  "child s = (case py_range 1000000 s of (r, s1) \<Rightarrow> generator Inr always r s1)"

definition slow :: "store \<Rightarrow> nat \<times> store" where
  "slow s = (case child s of (c, s1) \<Rightarrow> generator Inr always c s1)"

definition fast :: "store \<Rightarrow> nat \<times> store" where
  "fast s = (case child s of (c, s1) \<Rightarrow> generator Inr always c s1)"

subsection \<open>comprehensionInsteadMapAndFilter.py: even_squares and alt\<close>

text \<open>
  \<^verbatim>\<open>
  a = [1, 2, 3, 4, 5, 6, 7, 8, 9, 10]
  even_squares = [x**2 for x in a if x % 2 == 0]
  alt = map(lambda x: x**2, filter(lambda x: x % 2 == 0, a))
  assert even_squares == list(alt)
  \<close>
  The list \<open>a\<close> is \<open>a_list\<close>, \<open>lambda x: x**2\<close> is \<open>square\<close> and \<open>lambda x: x % 2 == 0\<close> is
  \<open>is_even\<close>, on every value. The square of a float is taken to be rounded correctly; it
  raises OverflowError when it is too large. On a str, \<open>x % 2\<close> formats \<open>2\<close> with \<open>x\<close>: what the
  formatting raises or returns is the parameter \<open>py_format\<close>, and a str that it returns is
  not equal to 0.
\<close>

definition a_list :: "pyval list" where
  "a_list = map VInt [1, 2, 3, 4, 5, 6, 7, 8, 9, 10]"

fun square :: "pyval \<Rightarrow> pyexc + pyval" where
  "square (VInt x) = Inr (VInt (x ^ 2))"
| "square (VBool b) = Inr (VInt (if b then 1 else 0))"
| "square (VFloat (Fin x)) =
     (if float_overflows (x ^ 2) then Inl OverflowError
      else Inr (VFloat (rounded False (x ^ 2))))"
| "square (VFloat NegZero) = Inr (VFloat (Fin 0))"
| "square (VFloat PosInf) = Inr (VFloat PosInf)"
| "square (VFloat NegInf) = Inr (VFloat PosInf)"
| "square (VFloat NaN) = Inr (VFloat NaN)"
| "square v = Inl TypeError"

fun is_even :: "(pystr \<Rightarrow> pyexc + pystr) \<Rightarrow> pyval \<Rightarrow> pyexc + bool" where
  "is_even py_format (VInt x) = Inr (x mod 2 = 0)"
| "is_even py_format (VBool b) = Inr (\<not> b)"
| "is_even py_format (VFloat (Fin x)) = Inr (frac (x / 2) = 0)"
| "is_even py_format (VFloat NegZero) = Inr True"
| "is_even py_format (VFloat x) = Inr False"
| "is_even py_format (VStr x) =
     (case py_format x of Inl e \<Rightarrow> Inl e | Inr formatted \<Rightarrow> Inr False)"
| "is_even py_format v = Inl TypeError"

text \<open>
  The formatting of a str that has no conversion in it ("not all arguments converted
  during string formatting").
\<close>

definition plain_format :: "pystr \<Rightarrow> pyexc + pystr" where
  "plain_format x = Inl TypeError"

text \<open>The list comprehension runs its generator to the end at once.\<close>

definition even_squares ::
    "(pystr \<Rightarrow> pyexc + pystr) \<Rightarrow> store \<Rightarrow> (pyexc + pyval list) \<times> store" where
  "even_squares py_format s =
     (case py_iter a_list s of (l, s1) \<Rightarrow>
        case generator square (is_even py_format) l s1 of (g, s2) \<Rightarrow> collect s2 g)"

text \<open>\<open>filter\<close> and \<open>map\<close> call \<open>iter\<close> on their argument and return an iterator each.\<close>

definition alt :: "(pystr \<Rightarrow> pyexc + pystr) \<Rightarrow> store \<Rightarrow> nat \<times> store" where
  "alt py_format s =
     (case py_iter a_list s of (l, s1) \<Rightarrow>
        case py_filter (is_even py_format) l s1 of (fl, s2) \<Rightarrow> py_map square fl s2)"

subsection \<open>generatorExpressionForLargeComprehension.py: it and roots\<close>

text \<open>
  \<^verbatim>\<open>
  it = (len(x) for x in open('my_file.txt'))
  print(next(it))
  print(next(it))
  roots = ((x, x*0.5) for x in it)
  print(next(roots))
  \<close>
  \<open>len\<close> is \<open>py_len\<close>: the characters of a str, the items of a tuple, the keys of a
  dictionary, which is read in the store of dictionaries \<open>h\<close>. \<open>lambda x: (x, x*0.5)\<close> is
  \<open>root_pair\<close>: an int is converted to a float for the product, and the half of a float is
  rounded where it falls below the smallest normal double.
\<close>

fun py_len :: "heap \<Rightarrow> pyval \<Rightarrow> pyexc + pyval" where
  "py_len h (VStr x) = Inr (VInt (int (length x)))"
| "py_len h (VTuple xs) = Inr (VInt (int (length xs)))"
| "py_len h (VRef a) =
     (if a < length h then Inr (VInt (int (card (dom (h ! a))))) else Inl TypeError)"
| "py_len h v = Inl TypeError"

fun half :: "pyfloat \<Rightarrow> pyfloat" where
  "half (Fin x) = rounded (x < 0) (\<bar>x\<bar> / 2)"
| "half x = x"

fun root_pair :: "pyval \<Rightarrow> pyexc + pyval" where
  "root_pair (VInt x) =
     (if float_overflows (of_int x) then Inl OverflowError
      else Inr (VTuple [VInt x, VFloat (half (Fin (round_double (of_int x))))]))"
| "root_pair (VBool b) = Inr (VTuple [VBool b, VFloat (Fin (if b then 1 / 2 else 0))])"
| "root_pair (VFloat x) = Inr (VTuple [VFloat x, VFloat (half x)])"
| "root_pair v = Inl TypeError"

text \<open>
  The generator expression opens the file at once (FileNotFoundError when there is none) and
  reads nothing yet.
\<close>

definition it :: "heap \<Rightarrow> (string \<rightharpoonup> pystr list) \<Rightarrow> store \<Rightarrow> pyexc + nat \<times> store" where
  "it h fs s =
     (case fs ''my_file.txt'' of
        None \<Rightarrow> Inl FileNotFoundError
      | Some content \<Rightarrow>
          Inr (case py_open fs ''my_file.txt'' s of (f, s1) \<Rightarrow>
                 generator (py_len h) always f s1))"

definition roots :: "nat \<Rightarrow> store \<Rightarrow> nat \<times> store" where
  "roots u s = generator root_pair always u s"

text \<open>A file of four lines for the example.\<close>

definition my_file :: "pystr list" where
  "my_file = [str ''one'' @ [10], str ''three'' @ [10], str ''fifteen'' @ [10], str ''x'' @ [10]]"

section \<open>Theorems\<close>

subsection \<open>index_words and index_words_iter\<close>

lemma index_words_loop_append:
  "index_words_loop index rest (pre @ result) = pre @ index_words_loop index rest result"
  by (induction index rest result rule: index_words_loop.induct) auto

lemma index_words_loop_Cons:
  "index_words_loop index rest (v # result) = v # index_words_loop index rest result"
  using index_words_loop_append [of index rest "[v]" result] by simp

lemma iw_list_resume:
  "(case iw_resume index rest of (Some v, g') \<Rightarrow> v # iw_list g' | (None, g') \<Rightarrow> [])
     = index_words_loop index rest []"
proof (induction rest arbitrary: index)
  case Nil
  show ?case by simp
next
  case (Cons letter rest)
  show ?case
  proof (cases "letter = blank")
    case True
    have "iw_list (IW_Loop (index + 1) rest) = index_words_loop (index + 1) rest []"
      using Cons [of "index + 1"] by (subst iw_list.simps) simp
    then show ?thesis
      using True index_words_loop_Cons [of "index + 1" rest "index + 1" "[]"] by simp
  next
    case False
    then show ?thesis using Cons [of "index + 1"] by simp
  qed
qed

text \<open>
  C9. For every text, the list built by \<open>index_words\<close> and the values yielded by the
  generator \<open>index_words_iter\<close>, driven until StopIteration, are the same indices in the
  same order.
\<close>

theorem index_words_iter_equiv: "iw_list (index_words_iter text) = index_words text"
proof (cases "text = []")
  case True
  then show ?thesis
    by (simp add: index_words_iter_def index_words_def iw_list.simps)
next
  case False
  have "iw_list (IW_Start text) = 0 # iw_list (IW_Loop 0 text)"
    using False by (subst iw_list.simps) simp
  moreover have "iw_list (IW_Loop 0 text) = index_words_loop 0 text []"
    using iw_list_resume [of 0 "text"] by (subst iw_list.simps) simp
  moreover have "index_words text = index_words_loop 0 text [0]"
    using False by (simp add: index_words_def)
  ultimately show ?thesis
    by (simp add: index_words_iter_def index_words_loop_Cons)
qed

subsection \<open>careful_divide\<close>



text \<open>Rounding moves a number by at most half a unit in the last place.\<close>

lemma round_even_nearest: "\<bar>of_int (round_even r) - r\<bar> \<le> 1 / 2"
  unfolding round_even_def by (simp; linarith)

lemma round_double_nearest: "\<bar>round_double x - x\<bar> \<le> 2 powi ulp_exponent x / 2"
proof -
  let ?u = "(2::real) powi ulp_exponent x"
  have u: "0 < ?u" by simp
  have "round_double x - x = (of_int (round_even (x / ?u)) - x / ?u) * ?u"
    using u by (simp add: round_double_def algebra_simps)
  then have "\<bar>round_double x - x\<bar> = \<bar>of_int (round_even (x / ?u)) - x / ?u\<bar> * ?u"
    using u by (simp add: abs_mult)
  also have "\<dots> \<le> 1 / 2 * ?u"
    using u round_even_nearest [of "x / ?u"] by (intro mult_right_mono) simp_all
  finally show ?thesis by simp
qed

lemma round_double_0 [simp]: "round_double 0 = 0"
  by (simp add: round_double_def round_even_def)

lemma not_overflows_0 [simp]: "\<not> float_overflows 0"
  by (simp add: float_overflows_def)

lemma halvings_le: "1 \<le> x \<Longrightarrow> 2 ^ halvings x \<le> x"
proof (induction x rule: halvings.induct)
  case (1 x)
  show ?case
  proof (cases "x < 2")
    case True
    then show ?thesis using "1.prems" by (simp add: halvings.simps [of x])
  next
    case False
    then have "2 ^ halvings (x / 2) \<le> x / 2" by (intro "1.IH") simp_all
    then show ?thesis using False by (simp add: halvings.simps [of x])
  qed
qed

lemma round_double_nonzero:
  assumes "1 \<le> \<bar>x\<bar>"
  shows "round_double x \<noteq> 0"
proof
  assume zero: "round_double x = 0"
  have "ulp_exponent x = int (halvings \<bar>x\<bar>) - 52"
    using assms by (simp add: ulp_exponent_def exponent_def)
  then have "2 powi ulp_exponent x = 2 ^ halvings \<bar>x\<bar> / (2::real) ^ 52"
    by (simp add: power_int_diff)
  also have "\<dots> \<le> \<bar>x\<bar> / 2 ^ 52"
    using halvings_le [OF assms] by (simp add: divide_right_mono)
  finally have "2 powi ulp_exponent x / 2 < \<bar>x\<bar>"
    using assms by simp
  with round_double_nearest [of x] zero show False
    by simp
qed

lemma round_double_int [simp]: "round_double (of_int i) = 0 \<longleftrightarrow> i = 0"
proof (cases "i = 0")
  case False
  then have "1 \<le> \<bar>real_of_int i\<bar>" by linarith
  then show ?thesis using False round_double_nonzero by blast
qed simp

lemma careful_divide_none_zero: "careful_divide_none (PyInt 1) (PyInt 0) = Inr RetNone"
  by (simp add: careful_divide_none_def)



lemma halvings_less: "1 \<le> x \<Longrightarrow> x < 2 * 2 ^ halvings x"
proof (induction x rule: halvings.induct)
  case (1 x)
  show ?case
  proof (cases "x < 2")
    case True
    then show ?thesis by (simp add: halvings.simps [of x])
  next
    case False
    then have "x / 2 < 2 * 2 ^ halvings (x / 2)" by (intro "1.IH") simp_all
    then show ?thesis using False by (simp add: halvings.simps [of x])
  qed
qed

lemma doublings_bounds:
  "0 < x \<Longrightarrow> x < 1 \<Longrightarrow> 1 \<le> x * 2 ^ doublings x \<and> x * 2 ^ doublings x < 2"
proof (induction x rule: doublings.induct)
  case (1 x)
  show ?case
  proof (cases "1 \<le> 2 * x")
    case True
    then have "doublings (2 * x) = 0" by (simp add: doublings.simps [of "2 * x"])
    then show ?thesis using "1.prems" True by (simp add: doublings.simps [of x])
  next
    case False
    then have "1 \<le> 2 * x * 2 ^ doublings (2 * x) \<and> 2 * x * 2 ^ doublings (2 * x) < 2"
      using "1.prems" by (intro "1.IH") simp_all
    then show ?thesis using "1.prems" by (simp add: doublings.simps [of x] mult.assoc)
  qed
qed

text \<open>The exponent of a positive number is the integer part of its binary logarithm.\<close>

lemma exponent_bounds:
  assumes "0 < x"
  shows "2 powi exponent x \<le> x \<and> x < 2 powi (exponent x + 1)"
proof (cases "1 \<le> x")
  case True
  then show ?thesis
    using halvings_le [of x] halvings_less [of x]
    by (simp add: exponent_def power_int_add)
next
  case False
  then have d: "1 \<le> x * 2 ^ doublings x" "x * 2 ^ doublings x < 2"
    using assms doublings_bounds [of x] by simp_all
  have a: "2 powi (- int (doublings x)) = 1 / (2::real) ^ doublings x"
    by (simp add: power_int_minus inverse_eq_divide)
  have b: "2 powi (1 - int (doublings x)) = 2 / (2::real) ^ doublings x"
    by (simp add: power_int_diff)
  have "1 / 2 ^ doublings x \<le> x" "x < 2 / 2 ^ doublings x"
    using d by (simp_all add: field_simps)
  then show ?thesis
    using False by (simp add: exponent_def a b)
qed

lemma round_even_half: "\<bar>r\<bar> \<le> 1 / 2 \<Longrightarrow> round_even r = 0"
proof -
  assume r: "\<bar>r\<bar> \<le> 1 / 2"
  consider "r = 1 / 2" | "r = - 1 / 2" | "0 \<le> r" "r < 1 / 2" | "- 1 / 2 < r" "r < 0"
    using r by linarith
  then show ?thesis
  proof cases
    case 1
    show ?thesis unfolding 1 by (simp add: round_even_def)
  next
    case 2
    then have "\<lfloor>r\<rfloor> = - 1" by linarith
    then show ?thesis using 2 by (simp add: round_even_def)
  next
    case 3
    then have "\<lfloor>r\<rfloor> = 0" by linarith
    then show ?thesis using 3 by (simp add: round_even_def)
  next
    case 4
    then have "\<lfloor>r\<rfloor> = - 1" by linarith
    then show ?thesis using 4 by (simp add: round_even_def)
  qed
qed

text \<open>Below half of the smallest positive double, \<open>2 ** -1074\<close>, a quotient rounds to zero.\<close>

lemma round_double_underflow:
  assumes "\<bar>x\<bar> \<le> 2 powi (- 1075)"
  shows "round_double x = 0"
proof (cases "x = 0")
  case False
  then have pos: "0 < \<bar>x\<bar>" by simp
  have "2 powi exponent \<bar>x\<bar> \<le> \<bar>x\<bar>"
    using exponent_bounds [OF pos] by simp
  also have "\<dots> \<le> 2 powi (- 1075)"
    by (rule assms)
  also have "\<dots> < 2 powi (- 1074)"
    by (intro power_int_strict_increasing) simp_all
  finally have lt: "2 powi exponent \<bar>x\<bar> < (2::real) powi (- 1074)" .
  have "exponent \<bar>x\<bar> < - 1074"
  proof (rule ccontr)
    assume "\<not> exponent \<bar>x\<bar> < - 1074"
    then have "(2::real) powi (- 1074) \<le> 2 powi exponent \<bar>x\<bar>"
      by (intro power_int_increasing) simp_all
    with lt show False by simp
  qed
  then have u: "ulp_exponent x = - 1074"
    by (simp add: ulp_exponent_def)
  have "\<bar>x / 2 powi (- 1074)\<bar> = \<bar>x\<bar> * 2 ^ 1074"
    by (simp add: power_int_minus abs_mult)
  also have "\<dots> \<le> 2 powi (- 1075) * 2 ^ 1074"
    using assms by (intro mult_right_mono) simp_all
  also have "\<dots> = 1 / 2"
    by (simp add: power_int_minus)
  finally have "round_even (x / 2 powi (- 1074)) = 0"
    by (rule round_even_half)
  then show ?thesis
    by (simp add: round_double_def u)
qed simp

lemma tiny_10_500: "\<bar>1 / 10 ^ 500\<bar> \<le> (2::real) powi (- 1075)"
proof -
  have "(2::real) ^ 1075 \<le> 2 ^ (3 * 500)"
    by (rule power_increasing) simp_all
  also have "\<dots> = (2 ^ 3) ^ 500"
    by (rule power_mult)
  also have "\<dots> \<le> 10 ^ 500"
    by (rule power_mono) simp_all
  finally have "1 / (10::real) ^ 500 \<le> 1 / 2 ^ 1075"
    by (intro divide_left_mono) (simp_all del: power_numeral)
  then show ?thesis
    by (simp add: power_int_minus field_simps del: power_numeral)
qed

text \<open>\<open>1 / 10 ** 500\<close> is \<open>0.0\<close>.\<close>

lemma careful_divide_underflow:
  "careful_divide (PyInt 1) (PyInt (10 ^ 500)) = Inr (RetFloat (Fin 0))"
proof -
  have "(1::real) \<le> 10 ^ 500"
    by (rule one_le_power) simp
  then have "\<bar>1 / (10::real) ^ 500\<bar> \<le> 1"
    by (simp del: power_numeral)
  also have "(1::real) < 2 ^ 1024 - 2 ^ 970"
    by simp
  finally have "\<not> float_overflows (1 / 10 ^ 500)"
    by (simp add: float_overflows_def del: power_numeral)
  moreover have "round_double (1 / 10 ^ 500) = 0"
    using tiny_10_500 by (rule round_double_underflow)
  ultimately show ?thesis
    by (simp add: careful_divide_def int_quotient_def rounded_def signed_zero_def
        del: power_numeral)
qed







lemma is_double_0 [simp]: "is_double 0"
proof -
  have "(0::real) = of_int 0 * 2 powi 0 \<and> \<bar>0::int\<bar> < 2 ^ 53 \<and> - 1074 \<le> (0::int) \<and> (0::int) \<le> 971"
    by simp
  then show ?thesis
    unfolding is_double_def by blast
qed













lemmas round_defs = round_double_def ulp_exponent_def exponent_def round_even_def
  halvings.simps doublings.simps rounded_def float_overflows_def signed_zero_def signed_inf_def

text \<open>
  Divisions as CPython computes them: \<open>1 / 3\<close> and \<open>1.0 / 3\<close> are
  \<open>0x1.5555555555555p-2\<close>, \<open>0 / -5\<close> and \<open>-1.0 / inf\<close> are \<open>-0.0\<close>, \<open>inf / -inf\<close> is \<open>nan\<close>,
  \<open>2.0 ** 1023 / 2.0 ** -1022\<close> is \<open>inf\<close>, and \<open>float(2 ** 53 + 1)\<close> is \<open>2.0 ** 53\<close>.
\<close>

lemma quotient_examples:
  "quotient (PyInt 1) (PyInt 3) = Fin (6004799503160661 / 2 ^ 54)"
  "quotient (PyFloat (Fin 1)) (PyInt 3) = Fin (6004799503160661 / 2 ^ 54)"
  "quotient (PyInt 0) (PyInt (- 5)) = NegZero"
  "quotient (PyFloat (Fin (- 1))) (PyFloat PosInf) = NegZero"
  "quotient (PyFloat PosInf) (PyFloat NegInf) = NaN"
  "quotient (PyFloat (Fin (2 ^ 1023))) (PyFloat (Fin (1 / 2 ^ 1022))) = PosInf"
  "as_double (PyInt (2 ^ 53 + 1)) = Inr (Fin (2 ^ 53))"
  by (simp_all add: round_defs int_quotient_def ieee_div_def)




subsection \<open>CallBinder\<close>

lemmas bind_defs = bind_def bind_positional_def positional_capable_def zone_params_def

text \<open>
  The calls that the file shows, with the outcome its comments record: four positional
  arguments for safe_divisor_c ("takes 2 positional arguments but 4 were given"), the old
  names for safe_divisor_d ("got an unexpected keyword argument 'numbers'"), names for the
  positional-only parameters of safe_divisor_e ("got some positional-only arguments passed
  as keyword arguments"), and the two ways of passing ndigits to safe_divisor_f.
\<close>

lemma safe_divisor_c_four_positional:
  "bind safe_divisor_c_params [VFloat (Fin 1), VInt (10 ^ 500), VBool True, VBool False] []
     = Inl TooManyPositionalArgs"
  by (simp add: bind_defs safe_divisor_c_params_def ignore_flags_def del: power_numeral)

lemma safe_divisor_d_old_names:
  "bind safe_divisor_d_params [] [(''numbers'', VInt 2), (''divisor'', VInt 5)]
     = Inl UnknownParameter"
  by (simp add: bind_defs safe_divisor_d_params_def ignore_flags_def)

lemma safe_divisor_e_by_name:
  "bind safe_divisor_e_params [] [(''numerator'', VInt 2), (''denominator'', VInt 5)]
     = Inl UnexpectedKeyword"
  by (simp add: bind_defs safe_divisor_e_params_def ignore_flags_def)

lemma safe_divisor_f_ndigits_by_position:
  "bind safe_divisor_f_params [VInt 22, VInt 7, VInt 5] [] =
     Inr [(''numerator'', VInt 22), (''denominator'', VInt 7), (''ndigits'', VInt 5),
          (''ignore_overflow'', VBool False), (''ignore_zero_divisor'', VBool False)]"
  by (simp add: bind_defs safe_divisor_f_params_def ignore_flags_def)

lemma safe_divisor_f_ndigits_by_name:
  "bind safe_divisor_f_params [VInt 22, VInt 7] [(''ndigits'', VInt 2)] =
     Inr [(''numerator'', VInt 22), (''denominator'', VInt 7), (''ndigits'', VInt 2),
          (''ignore_overflow'', VBool False), (''ignore_zero_divisor'', VBool False)]"
  by (simp add: bind_defs safe_divisor_f_params_def ignore_flags_def)

text \<open>
  C4. For positional-only \<open>(a, b)\<close>, flexible \<open>(c=10)\<close> and keyword-only \<open>(d)\<close>, binding the
  positional arguments \<open>[1, 2]\<close> and the named argument \<open>d = 5\<close> succeeds with
  \<open>a = 1\<close>, \<open>b = 2\<close>, \<open>c = 10\<close> (its default) and \<open>d = 5\<close>.
\<close>

theorem bind_abcd_defaults_c:
  "bind abcd_params [VInt 1, VInt 2] [(''d'', VInt 5)]
     = Inr [(''a'', VInt 1), (''b'', VInt 2), (''c'', VInt 10), (''d'', VInt 5)]"
  by (simp add: bind_defs abcd_params_def)

text \<open>
  C5 as stated fails: with three positional arguments and no named one, bind does not
  report TooManyPositionalArgs. The flexible parameter \<open>c\<close> is a third positional slot and
  takes the \<open>3\<close>; what fails is the keyword-only \<open>d\<close>, which is required and unbound.
\<close>

theorem bind_abcd_three_positional_counterexample:
  "bind abcd_params [VInt 1, VInt 2, VInt 3] [] \<noteq> Inl TooManyPositionalArgs"
  by (simp add: bind_defs abcd_params_def)

text \<open>
  C5, amended. Binding \<open>[1, 2, 3]\<close> with no named argument fails with
  MissingRequiredArgument: the three arguments fill \<open>a\<close>, \<open>b\<close> and \<open>c\<close>, and \<open>d\<close> is left
  without a value. TooManyPositionalArgs is the failure from four positional arguments
  on, whatever the named arguments.
\<close>

theorem bind_abcd_three_positional:
  "bind abcd_params [VInt 1, VInt 2, VInt 3] [] = Inl MissingRequiredArgument \<and>
   bind_positional abcd_params [VInt 1, VInt 2, VInt 3]
     = Inr [(''a'', VInt 1), (''b'', VInt 2), (''c'', VInt 3)] \<and>
   (\<forall>positionalArgs namedArgs. 3 < length positionalArgs \<longrightarrow>
      bind abcd_params positionalArgs namedArgs = Inl TooManyPositionalArgs)"
  by (simp add: bind_defs abcd_params_def)

theorem bind_abcd_three_positional_witness:
  "3 < length [VInt 1, VInt 2, VInt 3, VInt 4] \<and>
   bind abcd_params [VInt 1, VInt 2, VInt 3, VInt 4] [] = Inl TooManyPositionalArgs"
  using bind_abcd_three_positional by simp

text \<open>
  C6. Binding no positional argument and the named arguments \<open>a = 1\<close>, \<open>b = 2\<close>, \<open>d = 5\<close>
  fails with UnexpectedKeyword: \<open>a\<close> is positional-only and cannot be bound by name.
\<close>

theorem bind_abcd_positional_only_by_name:
  "bind abcd_params [] [(''a'', VInt 1), (''b'', VInt 2), (''d'', VInt 5)]
     = Inl UnexpectedKeyword"
  by (simp add: bind_defs abcd_params_def)

subsection \<open>Shared defaults\<close>

lemma bind_named_appends:
  "bind_named paramSpec bound namedArgs = Inr bound' \<Longrightarrow> bound' = bound @ namedArgs"
  by (induction paramSpec bound namedArgs rule: bind_named.induct)
    (auto split: option.splits if_splits)

lemma fill_defaults_lookup:
  "fill_defaults ps bound = Inr b \<Longrightarrow> distinct (map pname ps) \<Longrightarrow> p \<in> set ps \<Longrightarrow>
   map_of b (pname p) =
     (case map_of bound (pname p) of Some v \<Rightarrow> Some v | None \<Rightarrow> pdefault p)"
proof (induction ps arbitrary: b)
  case Nil
  then show ?case by simp
next
  case (Cons q ps)
  then show ?case
    by (auto split: option.splits sum.splits simp: image_iff)
qed

text \<open>A call that falls back to the default of a parameter binds it to the declared value.\<close>

lemma bind_default:
  assumes "bind paramSpec positionalArgs namedArgs = Inr b"
    and "distinct (map pname paramSpec)" and "p \<in> set paramSpec"
    and "falls_back paramSpec positionalArgs namedArgs (pname p)"
  shows "map_of b (pname p) = pdefault p"
proof -
  from assms(1) obtain bound bound' where
    1: "bind_positional paramSpec positionalArgs = Inr bound"
    and 2: "bind_named paramSpec bound namedArgs = Inr bound'"
    and 3: "fill_defaults paramSpec bound' = Inr b"
    by (auto simp: bind_def split: sum.splits)
  from 1 have "bound = zip (map pname (positional_capable paramSpec)) positionalArgs"
    by (auto simp: bind_positional_def split: if_splits)
  moreover from 2 have "bound' = bound @ namedArgs"
    by (rule bind_named_appends)
  ultimately have "map_of bound' (pname p) = None"
    using assms(4) by (simp add: falls_back_def map_add_def)
  with fill_defaults_lookup [OF 3 assms(2,3)] show ?thesis by simp
qed

text \<open>
  The lines after the first \<open>decode\<close> of noneAndDocstringFunc.py, for any two strings that
  \<open>json.loads\<close> rejects: \<open>foo\<close> and \<open>bar\<close> are the same reference (\<open>assert foo is bar\<close>),
  and the dictionary holds both keys.
\<close>

lemma decode_foo_is_bar:
  assumes "def_decode h0 = (params, h)"
    and "\<And>s. loads (VStr data1) s = Inl ValueError"
    and "\<And>s. loads (VStr data2) s = Inl ValueError"
  shows "\<exists>foo h1 h2.
    decode loads params [VStr data1] [] h = Inr (foo, h) \<and>
    setitem h foo ''stuff'' (VInt 5) = Inr h1 \<and>
    decode loads params [VStr data2] [] h1 = Inr (foo, h1) \<and>
    setitem h1 foo ''meep'' (VInt 1) = Inr h2 \<and>
    getitem h2 foo ''stuff'' = Inr (VInt 5) \<and>
    getitem h2 foo ''meep'' = Inr (VInt 1)"
  using assms
  by (auto simp: def_decode_def new_dict_def decode_def bind_defs decode_params_def
      local_var_def)

text \<open>
  C7. Take any parameter whose declared default is a reference to a container, and any two
  calls that are bound successfully and both fall back to that default. Both bindings hold
  the one reference that the parameter list was built with, so an item stored through the
  value of the first binding is read back through the value of the second.
\<close>

theorem shared_default:
  assumes "distinct (map pname paramSpec)" and "p \<in> set paramSpec"
    and "pdefault p = Some (VRef d)"
    and "bind paramSpec pos1 named1 = Inr b1"
    and "falls_back paramSpec pos1 named1 (pname p)"
    and "bind paramSpec pos2 named2 = Inr b2"
    and "falls_back paramSpec pos2 named2 (pname p)"
    and "setitem h (local_var b1 (pname p)) k v = Inr h'"
  shows "local_var b1 (pname p) = VRef d \<and> local_var b2 (pname p) = VRef d \<and>
         getitem h' (local_var b2 (pname p)) k = Inr v"
proof -
  have 1: "local_var b1 (pname p) = VRef d"
    using bind_default [OF assms(4,1,2,5)] assms(3) by (simp add: local_var_def)
  have 2: "local_var b2 (pname p) = VRef d"
    using bind_default [OF assms(6,1,2,7)] assms(3) by (simp add: local_var_def)
  from assms(8) 1 have "d < length h" and "h' = h[d := (h ! d)(k \<mapsto> v)]"
    by (auto split: if_splits)
  then have "getitem h' (VRef d) k = Inr v" by simp
  with 1 2 show ?thesis by simp
qed

theorem shared_default_witness:
  "distinct (map pname (decode_params (VRef 0))) \<and>
   \<lparr>pname = ''default'', pzone = Flexible, pdefault = Some (VRef 0)\<rparr>
     \<in> set (decode_params (VRef 0)) \<and>
   bind (decode_params (VRef 0)) [VStr (str ''bad data'')] []
     = Inr [(''data'', VStr (str ''bad data'')), (''default'', VRef 0)] \<and>
   falls_back (decode_params (VRef 0)) [VStr (str ''bad data'')] [] ''default'' \<and>
   bind (decode_params (VRef 0)) [VStr (str ''also bad'')] []
     = Inr [(''data'', VStr (str ''also bad'')), (''default'', VRef 0)] \<and>
   falls_back (decode_params (VRef 0)) [VStr (str ''also bad'')] [] ''default'' \<and>
   setitem [Map.empty] (VRef 0) ''stuff'' (VInt 5) = Inr [[''stuff'' \<mapsto> VInt 5]] \<and>
   getitem [[''stuff'' \<mapsto> VInt 5]]
     (local_var [(''data'', VStr (str ''also bad'')), (''default'', VRef 0)] ''default'') ''stuff''
     = Inr (VInt 5)"
proof -
  let ?p = "\<lparr>pname = ''default'', pzone = Flexible, pdefault = Some (VRef 0)\<rparr>"
  let ?ps = "decode_params (VRef 0)"
  have a: "distinct (map pname ?ps)"
    by (simp add: decode_params_def)
  have b: "?p \<in> set ?ps"
    by (simp add: decode_params_def)
  have c: "pdefault ?p = Some (VRef 0)"
    by simp
  have d: "bind ?ps [VStr (str ''bad data'')] []
      = Inr [(''data'', VStr (str ''bad data'')), (''default'', VRef 0)]"
    by (simp add: bind_defs decode_params_def)
  have e: "falls_back ?ps [VStr (str ''bad data'')] [] (pname ?p)"
    by (simp add: falls_back_def positional_capable_def zone_params_def decode_params_def)
  have f: "bind ?ps [VStr (str ''also bad'')] []
      = Inr [(''data'', VStr (str ''also bad'')), (''default'', VRef 0)]"
    by (simp add: bind_defs decode_params_def)
  have g: "falls_back ?ps [VStr (str ''also bad'')] [] (pname ?p)"
    by (simp add: falls_back_def positional_capable_def zone_params_def decode_params_def)
  have h: "setitem [Map.empty]
      (local_var [(''data'', VStr (str ''bad data'')), (''default'', VRef 0)] (pname ?p))
      ''stuff'' (VInt 5) = Inr [[''stuff'' \<mapsto> VInt 5]]"
    by (simp add: local_var_def)
  show ?thesis
    using shared_default [OF a b c d e f g h] a b d e f g h
    by (simp add: local_var_def)
qed

subsection \<open>Iterators and generators\<close>

lemmas alloc_defs = alloc_def py_iter_def py_range_def py_open_def py_map_def py_filter_def
  generator_def

lemma nxt_exhausted: "nxt s a = (StopIteration, s') \<Longrightarrow> nxt s' a = (StopIteration, s')"
proof (induction s a "StopIteration :: pyval outcome" s' rule: nxt_induct)
  case (list_stop s a xs i)
  then show ?case by (simp add: nxt.simps [of s a])
next
  case (file_stop s a ls i)
  then show ?case by (simp add: nxt.simps [of s a])
next
  case (finished s a k f p u)
  then show ?case by (simp add: nxt.simps [of s a])
next
  case (up_stop s a k f p u s1)
  have len: "a < length s1" using up_stop nxt_length by metis
  have obj: "s1 ! a = Pipe k False f p u" using up_stop nxt_above by metis
  show ?case
  proof (cases k)
    case Builtin
    then show ?thesis
      using up_stop len obj by (simp add: nxt.simps [of s1 a])
  next
    case Generator
    then show ?thesis
      using up_stop len by (simp add: nxt.simps [of "s1[a := _]" a])
  qed
next
  case (skip s a k f p u s1 x s')
  then show ?case by simp
qed

lemma nexts_exhausted:
  "nxt s a = (StopIteration, s') \<Longrightarrow> nexts n s' a = (replicate n StopIteration, s')"
  by (induction n) (auto dest: nxt_exhausted)

lemma collect_exhausted:
  "nxt s a = (StopIteration, s') \<Longrightarrow> collect s' a = (Inr [], s')"
  by (subst collect.simps) (auto dest: nxt_exhausted)

lemma collect_then_exhausted:
  "collect s a = (Inr xs, s') \<Longrightarrow> nxt s' a = (StopIteration, s')"
proof (induction s a arbitrary: xs s' rule: collect.induct)
  case (1 s a)
  obtain r s1 where step: "nxt s a = (r, s1)" by (cases "nxt s a") auto
  show ?case
  proof (cases r)
    case (Yield x)
    obtain res s2 where rest: "collect s1 a = (res, s2)" by (cases "collect s1 a") auto
    with "1.prems" step Yield obtain ys where "res = Inr ys" and "s2 = s'"
      by (subst (asm) collect.simps) (auto split: sum.splits)
    with "1.IH" [OF step [unfolded Yield, symmetric] refl] rest show ?thesis by simp
  next
    case StopIteration
    with "1.prems" step have "s' = s1"
      by (subst (asm) collect.simps) auto
    with step StopIteration show ?thesis by (auto dest: nxt_exhausted)
  next
    case (Raise e)
    with "1.prems" step show ?thesis
      by (subst (asm) collect.simps) auto
  qed
qed

lemma collect_list:
  "a < length s \<Longrightarrow> s ! a = ListIter xs i \<Longrightarrow>
   collect s a = (Inr (drop i xs), s[a := ListIter xs (max i (length xs))])"
proof (induction "length xs - i" arbitrary: i s)
  case 0
  then have "nxt s a = (StopIteration, s)" by (simp add: nxt.simps [of s a])
  moreover have "s[a := ListIter xs (max i (length xs))] = s"
    using 0 by (simp add: max_def list_update_same_conv)
  ultimately show ?case using 0 by (subst collect.simps) simp
next
  case (Suc n)
  then have i: "i < length xs" by simp
  let ?s1 = "s[a := ListIter xs (Suc i)]"
  have step: "nxt s a = (Yield (xs ! i), ?s1)"
    using Suc.prems i by (simp add: nxt.simps [of s a])
  have "collect ?s1 a = (Inr (drop (Suc i) xs), ?s1[a := ListIter xs (max (Suc i) (length xs))])"
    using Suc by (intro Suc.hyps(1)) auto
  then show ?case
    using step i by (subst collect.simps) (simp add: Cons_nth_drop_Suc max_def)
qed

text \<open>A generator that passes every item on yields what its upstream yields.\<close>

lemma collect_passthrough:
  "u < a \<Longrightarrow> a < length s \<Longrightarrow> s ! a = Pipe Generator False Inr always u \<Longrightarrow>
   fst (collect s a) = fst (collect s u)"
proof (induction s u arbitrary: rule: collect.induct)
  case (1 s u)
  obtain r s1 where step: "nxt s u = (r, s1)" by (cases "nxt s u") auto
  have len: "length s1 = length s" and same: "s1 ! a = s ! a"
    using step nxt_length nxt_above "1.prems" by metis+
  show ?case
  proof (cases r)
    case (Yield x)
    have down: "nxt s a = (Yield x, s1)"
      using "1.prems" step Yield by (simp add: nxt.simps [of s a] always_def)
    have "fst (collect s1 a) = fst (collect s1 u)"
      using "1.IH" [OF step [unfolded Yield, symmetric] refl] "1.prems" len same by simp
    then show ?thesis
      using down step Yield
      by (subst collect.simps, subst (2) collect.simps) (auto split: prod.splits sum.splits)
  next
    case StopIteration
    then show ?thesis
      using "1.prems" step
      by (subst collect.simps, subst (2) collect.simps) (simp add: nxt.simps [of s a])
  next
    case (Raise e)
    then show ?thesis
      using "1.prems" step
      by (subst collect.simps, subst (2) collect.simps) (simp add: nxt.simps [of s a])
  qed
qed

lemma same_kind_refl [simp]: "same_kind obj obj"
  by (cases obj) auto

lemma same_kind_trans: "same_kind x y \<Longrightarrow> same_kind y z \<Longrightarrow> same_kind x z"
  by (cases x; cases y; cases z) auto

lemma finish_kind:
  assumes "\<And>b. b < length s \<Longrightarrow> same_kind (s ! b) (s1 ! b)"
    and "length s1 = length s" and "s ! a = Pipe k False f p u" and "b < length s"
  shows "same_kind (s ! b) (finish (s ! a) a s1 ! b)"
proof (cases "b = a")
  case True
  then show ?thesis
    using assms(1) [of a] assms(2-4) by (cases k) auto
next
  case False
  then show ?thesis
    using assms(1) [of b] assms(4) by (simp add: finish_other)
qed

lemma nxt_same_kind: "nxt s a = (r, s') \<Longrightarrow> b < length s \<Longrightarrow> same_kind (s ! b) (s' ! b)"
proof (induction arbitrary: b rule: nxt_induct)
  case (skip s a k f p u s1 x r s')
  have "length s1 = length s"
    using skip.hyps(4) by (rule nxt_length)
  then have "same_kind (s1 ! b) (s' ! b)"
    using skip.prems skip.IH(2) [of b] by simp
  moreover have "same_kind (s ! b) (s1 ! b)"
    using skip.prems skip.IH(1) [of b] by simp
  ultimately show ?case
    by (rule same_kind_trans [rotated])
next
  case (up_stop s a k f p u s1)
  show ?case
    by (rule finish_kind [where k = k and f = f and p = p and u = u])
      (use up_stop in \<open>auto dest: nxt_length\<close>)
next
  case (up_raise s a k f p u s1 e)
  show ?case
    by (rule finish_kind [where k = k and f = f and p = p and u = u])
      (use up_raise in \<open>auto dest: nxt_length\<close>)
next
  case (pred_raise s a k f p u s1 x e)
  show ?case
    by (rule finish_kind [where k = k and f = f and p = p and u = u])
      (use pred_raise in \<open>auto dest: nxt_length\<close>)
next
  case (fn_raise s a k f p u s1 x e)
  show ?case
    by (rule finish_kind [where k = k and f = f and p = p and u = u])
      (use fn_raise in \<open>auto dest: nxt_length\<close>)
qed (auto simp: nth_list_update)

lemma upstream_same_kind: "same_kind obj obj' \<Longrightarrow> upstream obj' = upstream obj"
  by (cases obj; cases obj') auto

lemma chain_cong:
  assumes "length s' = length s" and "\<And>b. b < length s \<Longrightarrow> upstream (s' ! b) = upstream (s ! b)"
  shows "chain s' a = chain s a"
proof (induction a rule: less_induct)
  case (less a)
  show ?case
  proof (cases "length s \<le> a")
    case True
    then show ?thesis
      using assms(1) by (simp add: chain.simps [of _ a])
  next
    case False
    then have up: "upstream (s' ! a) = upstream (s ! a)"
      using assms(2) by simp
    show ?thesis
    proof (cases "upstream (s ! a)")
      case None
      then show ?thesis
        using False up assms(1) by (simp add: chain.simps [of _ a])
    next
      case (Some u)
      show ?thesis
      proof (cases "u < a")
        case True
        then show ?thesis
          using False up Some assms(1) less.IH [of u] by (simp add: chain.simps [of _ a])
      next
        case False
        then show ?thesis
          using \<open>\<not> length s \<le> a\<close> up Some assms(1) by (simp add: chain.simps [of _ a])
      qed
    qed
  qed
qed

lemma nxt_chain: "nxt s u = (r, s') \<Longrightarrow> chain s' a = chain s a"
  by (rule chain_cong) (auto dest: nxt_length nxt_same_kind upstream_same_kind)

lemma chain_head: "a < length s \<Longrightarrow> a \<in> set (chain s a)"
  by (simp add: chain.simps [of s a])

lemma chain_upstream:
  "a < length s \<Longrightarrow> s ! a = Pipe k fin f p u \<Longrightarrow> u < a \<Longrightarrow> b \<in> set (chain s u) \<Longrightarrow>
   b \<in> set (chain s a)"
  by (simp add: chain.simps [of s a])

lemma finish_frame:
  assumes "a < length s" and "b \<notin> set (chain s a)"
  shows "finish obj a s1 ! b = s1 ! b"
proof -
  have "b \<noteq> a" using assms chain_head by blast
  then show ?thesis by (simp add: finish_other)
qed

lemma nxt_frame: "nxt s a = (r, s') \<Longrightarrow> b \<notin> set (chain s a) \<Longrightarrow> s' ! b = s ! b"
proof (induction rule: nxt_induct)
  case (list_yield s a xs i)
  then have "b \<noteq> a" using chain_head by blast
  then show ?case by simp
next
  case (file_yield s a ls i)
  then have "b \<noteq> a" using chain_head by blast
  then show ?case by simp
next
  case (up_stop s a k f p u s1)
  then have "b \<notin> set (chain s u)" using chain_upstream by blast
  then show ?case using up_stop finish_frame by simp
next
  case (up_raise s a k f p u s1 e)
  then have "b \<notin> set (chain s u)" using chain_upstream by blast
  then show ?case using up_raise finish_frame by simp
next
  case (pred_raise s a k f p u s1 x e)
  then have "b \<notin> set (chain s u)" using chain_upstream by blast
  then show ?case using pred_raise finish_frame by simp
next
  case (fn_raise s a k f p u s1 x e)
  then have "b \<notin> set (chain s u)" using chain_upstream by blast
  then show ?case using fn_raise finish_frame by simp
next
  case (yield s a k f p u s1 x y)
  then have "b \<notin> set (chain s u)" using chain_upstream by blast
  then show ?case using yield by simp
next
  case (skip s a k f p u s1 x r s')
  have "b \<notin> set (chain s u)" using skip chain_upstream by blast
  moreover have "chain s1 a = chain s a" using skip.hyps(4) by (rule nxt_chain)
  ultimately show ?case using skip by simp
qed simp_all

lemma nxt_pulls:
  "nxt s a = (Yield y, s') \<Longrightarrow> s ! a = Pipe k fin f p u \<Longrightarrow>
   \<exists>xs x. nexts (Suc (length xs)) s u = (map Yield (xs @ [x]), s') \<and>
          (\<forall>z \<in> set xs. p z = Inr False) \<and> p x = Inr True \<and> f x = Inr y"
proof (induction s a "Yield y :: pyval outcome" s' rule: nxt_induct)
  case (yield s a k' f' p' u' s1 x)
  then have "nexts (Suc (length ([] :: pyval list))) s u = (map Yield ([] @ [x]), s1)"
    by simp
  moreover have "p x = Inr True" and "f x = Inr y"
    using yield by simp_all
  ultimately show ?case
    by (intro exI [of _ "[]"] exI [of _ x]) simp
next
  case (skip s a k' f' p' u' s1 x s')
  have same: "s1 ! a = Pipe k fin f p u"
    using skip.hyps(3,4) skip.prems nxt_above by metis
  from skip.hyps(8) [OF same] obtain xs x' where
    rest: "nexts (Suc (length xs)) s1 u = (map Yield (xs @ [x']), s')"
    and rej: "\<forall>z \<in> set xs. p z = Inr False" and acc: "p x' = Inr True" "f x' = Inr y"
    by blast
  have eq: "u' = u" "p' = p"
    using skip.hyps(2) skip.prems by simp_all
  have "nexts (Suc (length (x # xs))) s u = (map Yield ((x # xs) @ [x']), s')"
    using skip.hyps(4) rest eq by simp
  moreover have "\<forall>z \<in> set (x # xs). p z = Inr False"
    using rej skip.hyps(6) eq by simp
  ultimately show ?case
    using acc by blast
qed simp_all

lemma nxt_one_to_one:
  assumes "nxt s a = (Yield y, s')" and "s ! a = Pipe k fin f always u"
  shows "\<exists>x. nxt s u = (Yield x, s') \<and> f x = Inr y"
proof -
  from nxt_pulls [OF assms] obtain xs x where
    1: "nexts (Suc (length xs)) s u = (map Yield (xs @ [x]), s')"
    and 2: "\<forall>z \<in> set xs. always z = Inr False" and 3: "f x = Inr y"
    by blast
  from 2 have "set xs = {}"
    by (auto simp: always_def)
  then have "xs = []"
    by simp
  with 1 have "nxt s u = (Yield x, s')"
    by (simp split: prod.splits)
  with 3 show ?thesis by blast
qed

text \<open>
  C3. For every finite sequence \<open>S\<close>, a generator that passes the items of \<open>iter(S)\<close> on
  unchanged, with no predicate, yields exactly \<open>S\<close> when it is driven to exhaustion. So do
  \<open>slow()\<close> and \<open>fast()\<close> for the range they wrap: \<open>0, 1, ..., 999999\<close>.
\<close>

theorem passthrough_yields_source:
  "fst (case py_iter S s of (l, s1) \<Rightarrow>
          case generator Inr always l s1 of (g, s2) \<Rightarrow> collect s2 g) = Inr S \<and>
   fst (case slow s of (g, s') \<Rightarrow> collect s' g) = Inr (map (\<lambda>i. VInt (int i)) [0..<1000000]) \<and>
   fst (case fast s of (g, s') \<Rightarrow> collect s' g) = Inr (map (\<lambda>i. VInt (int i)) [0..<1000000])"
proof -
  let ?g = "Pipe Generator False Inr always"
  have one: "fst (collect (s @ [ListIter xs 0, ?g (length s)]) (Suc (length s))) = Inr xs" for xs
  proof -
    let ?s2 = "s @ [ListIter xs 0, ?g (length s)]"
    have "fst (collect ?s2 (Suc (length s))) = fst (collect ?s2 (length s))"
      by (rule collect_passthrough) (simp_all add: nth_append)
    also have "\<dots> = Inr (drop 0 xs)"
      by (subst collect_list [of _ _ xs 0]) simp_all
    finally show ?thesis by simp
  qed
  have two: "fst (collect (s @ [ListIter xs 0, ?g (length s), ?g (Suc (length s))])
      (Suc (Suc (length s)))) = Inr xs" for xs
  proof -
    let ?s3 = "s @ [ListIter xs 0, ?g (length s), ?g (Suc (length s))]"
    have "fst (collect ?s3 (Suc (Suc (length s)))) = fst (collect ?s3 (Suc (length s)))"
      by (rule collect_passthrough) (simp_all add: nth_append)
    also have "\<dots> = fst (collect ?s3 (length s))"
      by (rule collect_passthrough) (simp_all add: nth_append)
    also have "\<dots> = Inr (drop 0 xs)"
      by (subst collect_list [of _ _ xs 0]) simp_all
    finally show ?thesis by simp
  qed
  show ?thesis
    using one [of S] two [of "map (\<lambda>i. VInt (int i)) [0..<1000000]"]
    by (simp add: slow_def fast_def child_def alloc_defs del: upt_Suc)
qed

subsection \<open>Exhausted iterators\<close>

text \<open>\<open>list\<close> of an iterator that \<open>list\<close> has run to its end is empty.\<close>

lemma collect_twice: "collect s a = (Inr xs, s') \<Longrightarrow> collect s' a = (Inr [], s')"
  by (rule collect_exhausted) (rule collect_then_exhausted)

text \<open>
  C1. Once a call of \<open>next\<close> on an iterator has returned StopIteration, every further call
  returns StopIteration again and leaves every object as it is: no exception, no value, no
  earlier output a second time, however many calls follow. \<open>list\<close> of it is the empty list.
\<close>

theorem exhausted_stays_exhausted:
  assumes "nxt s a = (StopIteration, s')"
  shows "nexts n s' a = (replicate n StopIteration, s') \<and> collect s' a = (Inr [], s')"
  using assms by (simp add: nexts_exhausted collect_exhausted)

text \<open>
  C1 on lines 53 to 55 of iteratingOverArg.py: \<open>it = read_visits('my_numbers.txt')\<close>, then
  \<open>list(it)\<close> twice. The first gives the visits. The generator has then raised
  StopIteration, and four more calls of \<open>next\<close> and the second \<open>list(it)\<close> give nothing.
\<close>

theorem exhausted_stays_exhausted_witness:
  "read_visits int_of_visit [''my_numbers.txt'' \<mapsto> visits_file] ''my_numbers.txt'' []
     = (1, [FileIter (Some visits_file) 0,
            Pipe Generator False (int_of_line int_of_visit) always 0]) \<and>
   collect [FileIter (Some visits_file) 0,
            Pipe Generator False (int_of_line int_of_visit) always 0] 1
     = (Inr [VInt 15, VInt 35, VInt 80],
        [FileIter (Some visits_file) 3,
         Pipe Generator True (int_of_line int_of_visit) always 0]) \<and>
   nxt [FileIter (Some visits_file) 3,
        Pipe Generator True (int_of_line int_of_visit) always 0] 1
     = (StopIteration,
        [FileIter (Some visits_file) 3,
         Pipe Generator True (int_of_line int_of_visit) always 0]) \<and>
   nexts 4 [FileIter (Some visits_file) 3,
            Pipe Generator True (int_of_line int_of_visit) always 0] 1
     = ([StopIteration, StopIteration, StopIteration, StopIteration],
        [FileIter (Some visits_file) 3,
         Pipe Generator True (int_of_line int_of_visit) always 0]) \<and>
   collect [FileIter (Some visits_file) 3,
            Pipe Generator True (int_of_line int_of_visit) always 0] 1
     = (Inr [],
        [FileIter (Some visits_file) 3,
         Pipe Generator True (int_of_line int_of_visit) always 0])"
proof -
  let ?s0 = "[FileIter (Some visits_file) 0,
              Pipe Generator False (int_of_line int_of_visit) always 0]"
  let ?s1 = "[FileIter (Some visits_file) 3,
              Pipe Generator True (int_of_line int_of_visit) always 0]"
  have a: "read_visits int_of_visit [''my_numbers.txt'' \<mapsto> visits_file] ''my_numbers.txt'' []
      = (1, ?s0)"
    by (simp add: read_visits_def alloc_defs)
  have b: "collect ?s0 1 = (Inr [VInt 15, VInt 35, VInt 80], ?s1)"
    by (simp add: collect.simps nxt.simps always_def int_of_line_def visits_file_def
        int_of_visit_def str_def)
  have c: "nxt ?s1 1 = (StopIteration, ?s1)"
    by (simp add: nxt.simps)
  show ?thesis
    using exhausted_stays_exhausted [OF c, of 4] a b c by (simp add: numeral_nat)
qed

subsection \<open>even_squares and alt\<close>

lemma alt_alloc:
  "alt py_format s = (Suc (Suc (length s)),
     s @ [ListIter a_list 0, Pipe Builtin False Inr (is_even py_format) (length s),
          Pipe Builtin False square always (Suc (length s))])"
  by (simp add: alt_def alloc_defs)

text \<open>
  C2, as stated, fails on its last part. In
  \<open>alt = map(lambda x: x**2, filter(lambda x: x % 2 == 0, a))\<close> the \<open>filter\<close> object is A,
  its source is the iterator of \<open>a\<close>, and the \<open>map\<close> object is B. The first call of
  \<open>next(alt)\<close> returns 4, the one output of B so far, and the iterator of \<open>a\<close> has handed
  out two items, 1 and 2: A has taken 1, dropped it, and taken 2.
\<close>

theorem source_once_per_output_counterexample:
  "fst (nxt (snd (alt plain_format [])) (fst (alt plain_format []))) = Yield (VInt 4) \<and>
   cursor (snd (nxt (snd (alt plain_format [])) (fst (alt plain_format []))) ! 0) = 2"
  by (simp add: alt_alloc a_list_def nxt.simps always_def)

text \<open>
  C2, amended. Over \<open>a = [1, ..., 10]\<close>, chaining the \<open>filter\<close> on even numbers (A) into the
  \<open>map\<close> of the square (B) yields exactly 4, 16, 36, 64, 100, and so does the list
  comprehension \<open>even_squares\<close>. The source of A has handed out 2k items when B has produced
  k outputs, two for each output, ten for the five outputs. It is A that is consumed exactly
  once for each output of B: a call of \<open>next\<close> on B that yields \<open>y\<close> is one call of \<open>next\<close>
  on A, which yields the \<open>x\<close> with \<open>y = x**2\<close>.
\<close>

theorem even_square_chain:
  "fst (collect (snd (alt py_format s)) (fst (alt py_format s)))
     = Inr (map VInt [4, 16, 36, 64, 100]) \<and>
   fst (even_squares py_format s) = Inr (map VInt [4, 16, 36, 64, 100]) \<and>
   map (\<lambda>k. cursor (snd (nexts k (snd (alt py_format s)) (fst (alt py_format s))) ! length s))
     [0, 1, 2, 3, 4, 5] = [0, 2, 4, 6, 8, 10] \<and>
   (nxt t (fst (alt py_format s)) = (Yield y, t') \<longrightarrow>
    t ! fst (alt py_format s) = Pipe Builtin finished square always (Suc (length s)) \<longrightarrow>
    (\<exists>x. nxt t (Suc (length s)) = (Yield x, t') \<and> square x = Inr y))"
proof -
  have "fst (collect (snd (alt py_format s)) (fst (alt py_format s)))
      = Inr (map VInt [4, 16, 36, 64, 100])"
    by (simp add: alt_alloc a_list_def nxt.simps collect.simps always_def nth_append
        list_update_append)
  moreover have "fst (even_squares py_format s) = Inr (map VInt [4, 16, 36, 64, 100])"
    by (simp add: even_squares_def alloc_defs a_list_def nxt.simps collect.simps always_def
        nth_append list_update_append)
  moreover have
    "map (\<lambda>k. cursor (snd (nexts k (snd (alt py_format s)) (fst (alt py_format s))) ! length s))
      [0, 1, 2, 3, 4, 5] = [0, 2, 4, 6, 8, 10]"
    by (simp add: alt_alloc a_list_def nxt.simps always_def numeral_nat nth_append
        list_update_append)
  moreover have "\<exists>x. nxt t (Suc (length s)) = (Yield x, t') \<and> square x = Inr y"
    if "nxt t (fst (alt py_format s)) = (Yield y, t')"
      and "t ! fst (alt py_format s) = Pipe Builtin finished square always (Suc (length s))"
    using that by (rule nxt_one_to_one)
  ultimately show ?thesis
    by blast
qed

text \<open>
  C2, amended, on the program: the first \<open>next(alt)\<close> is one \<open>next\<close> on the \<open>filter\<close>
  object, which yields 2.
\<close>

theorem even_square_chain_witness:
  "nxt (snd (alt plain_format [])) (fst (alt plain_format []))
     = (Yield (VInt 4),
        [ListIter a_list 2, Pipe Builtin False Inr (is_even plain_format) 0,
         Pipe Builtin False square always 1]) \<and>
   snd (alt plain_format []) ! fst (alt plain_format []) = Pipe Builtin False square always 1 \<and>
   nxt (snd (alt plain_format [])) 1
     = (Yield (VInt 2),
        [ListIter a_list 2, Pipe Builtin False Inr (is_even plain_format) 0,
         Pipe Builtin False square always 1]) \<and>
   square (VInt 2) = Inr (VInt 4)"
proof -
  let ?t' = "[ListIter a_list 2, Pipe Builtin False Inr (is_even plain_format) 0,
              Pipe Builtin False square always 1]"
  have a: "nxt (snd (alt plain_format [])) (fst (alt plain_format [])) = (Yield (VInt 4), ?t')"
    by (simp add: alt_alloc a_list_def nxt.simps always_def)
  have b: "snd (alt plain_format []) ! fst (alt plain_format [])
      = Pipe Builtin False square always (Suc (length []))"
    by (simp add: alt_alloc)
  have c: "nxt (snd (alt plain_format [])) 1 = (Yield (VInt 2), ?t')"
    by (simp add: alt_alloc a_list_def nxt.simps)
  show ?thesis
    using even_square_chain [of plain_format "[]" "snd (alt plain_format [])" "VInt 4" ?t' False]
      a b c
    by simp
qed

subsection \<open>The domino advance\<close>

text \<open>
  C8. A call of \<open>next\<close> adds and removes no object, leaves every object that is not the
  iterator or one of its upstreams as it is, and in an object changes nothing but the cursor,
  which may have moved forward, and whether a generator has finished. A call on a downstream
  iterator that yields \<open>y\<close> is a run of calls of \<open>next\<close> on its upstream, each of which is in
  turn such a run one level up: the items that the predicate drops, none or more, and then
  the item \<open>x\<close> that it keeps, with \<open>y\<close> the transform of \<open>x\<close>. With no predicate it is exactly
  one call. The store after the call is the store after these calls of the upstream, and the
  sources have handed out at least one item.
\<close>

theorem domino_advance:
  assumes "nxt s a = (r, s')"
  shows "length s' = length s \<and>
         (\<forall>b. b \<notin> set (chain s a) \<longrightarrow> s' ! b = s ! b) \<and>
         (\<forall>b < length s. same_kind (s ! b) (s' ! b)) \<and>
         (\<forall>y k finished f p u. r = Yield y \<longrightarrow> s ! a = Pipe k finished f p u \<longrightarrow>
            (\<exists>xs x. nexts (Suc (length xs)) s u = (map Yield (xs @ [x]), s') \<and>
               (\<forall>z \<in> set xs. p z = Inr False) \<and> p x = Inr True \<and> f x = Inr y) \<and>
            (p = always \<longrightarrow> (\<exists>x. nxt s u = (Yield x, s') \<and> f x = Inr y)) \<and>
            weight s' < weight s)"
proof -
  have "\<forall>b. b \<notin> set (chain s a) \<longrightarrow> s' ! b = s ! b"
    using nxt_frame [OF assms] by blast
  moreover have "\<forall>b < length s. same_kind (s ! b) (s' ! b)"
    using nxt_same_kind [OF assms] by blast
  moreover have "(\<exists>xs x. nexts (Suc (length xs)) s u = (map Yield (xs @ [x]), s') \<and>
       (\<forall>z \<in> set xs. p z = Inr False) \<and> p x = Inr True \<and> f x = Inr y) \<and>
      (p = always \<longrightarrow> (\<exists>x. nxt s u = (Yield x, s') \<and> f x = Inr y)) \<and>
      weight s' < weight s"
    if r: "r = Yield y" and obj: "s ! a = Pipe k finished f p u" for y k finished f p u
  proof -
    have step: "nxt s a = (Yield y, s')"
      using assms r by simp
    have "p = always \<longrightarrow> (\<exists>x. nxt s u = (Yield x, s') \<and> f x = Inr y)"
      using nxt_one_to_one [OF step] obj by blast
    then show ?thesis
      using nxt_pulls [OF step obj] nxt_yield_weight [OF step] by blast
  qed
  ultimately show ?thesis
    using nxt_length [OF assms] by blast
qed

text \<open>
  Lines 13 to 53 of generatorExpressionForLargeComprehension.py, on a file of four lines.
  After the list comprehension of line 13 the store holds its file, read to the end, and
  its finished generator. \<open>it\<close> opens the file again; two calls of \<open>next(it)\<close> give 4 and 6;
  \<open>roots\<close> is built on \<open>it\<close>.
\<close>

lemma roots_program:
  "it [] [''my_file.txt'' \<mapsto> my_file]
      [FileIter (Some my_file) 4, Pipe Generator True (py_len []) always 0]
     = Inr (3, [FileIter (Some my_file) 4, Pipe Generator True (py_len []) always 0,
                FileIter (Some my_file) 0, Pipe Generator False (py_len []) always 2])"
  "nexts 2 [FileIter (Some my_file) 4, Pipe Generator True (py_len []) always 0,
            FileIter (Some my_file) 0, Pipe Generator False (py_len []) always 2] 3
     = ([Yield (VInt 4), Yield (VInt 6)],
        [FileIter (Some my_file) 4, Pipe Generator True (py_len []) always 0,
         FileIter (Some my_file) 2, Pipe Generator False (py_len []) always 2])"
  "roots 3 [FileIter (Some my_file) 4, Pipe Generator True (py_len []) always 0,
            FileIter (Some my_file) 2, Pipe Generator False (py_len []) always 2]
     = (4, [FileIter (Some my_file) 4, Pipe Generator True (py_len []) always 0,
            FileIter (Some my_file) 2, Pipe Generator False (py_len []) always 2,
            Pipe Generator False root_pair always 3])"
  by (simp_all add: it_def roots_def generator_def alloc_defs nxt.simps always_def my_file_def
      str_def numeral_2_eq_2)

text \<open>
  C8 on that store: \<open>next(roots)\<close> is one \<open>next(it)\<close>, which reads the third line of the file
  of \<open>it\<close> (address 2); the objects of the list comprehension (addresses 0 and 1) are not
  on the chain of \<open>roots\<close> and stay as they are. On a \<open>filter\<close> of the even numbers of \<open>a\<close>,
  the first call of \<open>next\<close> is two calls on the iterator of \<open>a\<close>: 1 is dropped, 2 is kept.
\<close>

theorem domino_advance_witness:
  "nxt [FileIter (Some my_file) 4, Pipe Generator True (py_len []) always 0,
        FileIter (Some my_file) 2, Pipe Generator False (py_len []) always 2,
        Pipe Generator False root_pair always 3] 4
     = (Yield (VTuple [VInt 8, VFloat (Fin 4)]),
        [FileIter (Some my_file) 4, Pipe Generator True (py_len []) always 0,
         FileIter (Some my_file) 3, Pipe Generator False (py_len []) always 2,
         Pipe Generator False root_pair always 3]) \<and>
   nxt [FileIter (Some my_file) 4, Pipe Generator True (py_len []) always 0,
        FileIter (Some my_file) 2, Pipe Generator False (py_len []) always 2,
        Pipe Generator False root_pair always 3] 3
     = (Yield (VInt 8),
        [FileIter (Some my_file) 4, Pipe Generator True (py_len []) always 0,
         FileIter (Some my_file) 3, Pipe Generator False (py_len []) always 2,
         Pipe Generator False root_pair always 3]) \<and>
   root_pair (VInt 8) = Inr (VTuple [VInt 8, VFloat (Fin 4)]) \<and>
   chain [FileIter (Some my_file) 4, Pipe Generator True (py_len []) always 0,
          FileIter (Some my_file) 2, Pipe Generator False (py_len []) always 2,
          Pipe Generator False root_pair always 3] 4 = [4, 3, 2] \<and>
   nxt [ListIter a_list 0, Pipe Builtin False Inr (is_even plain_format) 0] 1
     = (Yield (VInt 2), [ListIter a_list 2, Pipe Builtin False Inr (is_even plain_format) 0]) \<and>
   nexts 2 [ListIter a_list 0, Pipe Builtin False Inr (is_even plain_format) 0] 0
     = ([Yield (VInt 1), Yield (VInt 2)],
        [ListIter a_list 2, Pipe Builtin False Inr (is_even plain_format) 0]) \<and>
   is_even plain_format (VInt 1) = Inr False \<and> is_even plain_format (VInt 2) = Inr True"
proof -
  let ?s = "[FileIter (Some my_file) 4, Pipe Generator True (py_len []) always 0,
        FileIter (Some my_file) 2, Pipe Generator False (py_len []) always 2,
        Pipe Generator False root_pair always 3]"
  let ?s' = "[FileIter (Some my_file) 4, Pipe Generator True (py_len []) always 0,
         FileIter (Some my_file) 3, Pipe Generator False (py_len []) always 2,
         Pipe Generator False root_pair always 3]"
  let ?t = "[ListIter a_list 0, Pipe Builtin False Inr (is_even plain_format) 0]"
  let ?t' = "[ListIter a_list 2, Pipe Builtin False Inr (is_even plain_format) 0]"
  have pair: "root_pair (VInt 8) = Inr (VTuple [VInt 8, VFloat (Fin 4)])"
    by (simp add: round_defs)
  have 1: "nxt ?s 4 = (Yield (VTuple [VInt 8, VFloat (Fin 4)]), ?s')"
    using pair by (simp add: nxt.simps always_def my_file_def str_def)
  have 2: "?s ! 4 = Pipe Generator False root_pair always 3"
    by simp
  have 3: "nxt ?t 1 = (Yield (VInt 2), ?t')"
    by (simp add: nxt.simps a_list_def)
  have 4: "?t ! 1 = Pipe Builtin False Inr (is_even plain_format) 0"
    by simp
  have 5: "chain ?s 4 = [4, 3, 2]"
    by (simp add: chain.simps)
  have 6: "nexts 2 ?t 0 = ([Yield (VInt 1), Yield (VInt 2)], ?t')"
    by (simp add: nxt.simps a_list_def numeral_2_eq_2)
  from domino_advance [OF 1] 2 have "\<exists>x. nxt ?s 3 = (Yield x, ?s') \<and>
      root_pair x = Inr (VTuple [VInt 8, VFloat (Fin 4)])"
    by blast
  then have 7: "nxt ?s 3 = (Yield (VInt 8), ?s')"
    by (auto simp: nxt.simps always_def my_file_def str_def)
  from domino_advance [OF 3] have 8: "length ?t' = length ?t"
    by blast
  show ?thesis
    using 1 3 5 6 7 8 pair by simp
qed

end
